theory Spec2Isabelle
  imports Complex_Main "HOL-Library.Word" "HOL-Library.Char_ord" "HOL-Library.List_Lexorder"
begin

section \<open>Vectors, collaborators and data\<close>

text \<open>
  The engine's \<^verbatim>\<open>float\<close> is a type parameter \<open>'f\<close>. Only its order, its equality, its
  constants \<open>0\<close> and \<open>1\<close> and the symbols \<open>+\<close>, \<open>*\<close> and \<open>abs\<close> are used, and no law of
  arithmetic is assumed, so nothing below depends on how sums are rounded. Comparisons
  are those of a linear order: a NaN, which compares unequal to itself, is outside the
  model.
\<close>

record 'f float3 =
  fx :: 'f
  fy :: 'f
  fz :: 'f

definition ZeroVector :: "('f::zero) float3" where
  "ZeroVector = \<lparr>fx = 0, fy = 0, fz = 0\<rparr>"

definition OnesVector :: "('f::one) float3" where
  "OnesVector = \<lparr>fx = 1, fy = 1, fz = 1\<rparr>"

text \<open>
  Modelled from the spec: \<^verbatim>\<open>float3::operator+\<close> and \<^verbatim>\<open>std::fabs\<close> on \<^verbatim>\<open>float3\<close>
  (System/float3.h is not among the sources): the sum of two vectors and the
  component-wise magnitude of a vector.
\<close>

definition vadd :: "('f::plus) float3 \<Rightarrow> 'f float3 \<Rightarrow> 'f float3" where
  "vadd u v = \<lparr>fx = fx u + fx v, fy = fy u + fy v, fz = fz u + fz v\<rparr>"

definition vfabs :: "('f::abs) float3 \<Rightarrow> 'f float3" where
  "vfabs v = \<lparr>fx = abs (fx v), fy = abs (fy v), fz = abs (fz v)\<rparr>"

text \<open>
  The metadata table (\<^verbatim>\<open>LuaTable\<close>) is consumed through its lookups only: each takes a
  key and the caller's default. A table is the record of its lookups, with no relation
  assumed between them; the model table adds \<^verbatim>\<open>SubTable("pieces").SubTable(name)\<close>.
\<close>

record 'f LuaTable =
  KeyExists :: "string \<Rightarrow> bool"
  GetFloat :: "string \<Rightarrow> 'f \<Rightarrow> 'f"
  GetFloat3 :: "string \<Rightarrow> 'f float3 \<Rightarrow> 'f float3"
  GetString :: "string \<Rightarrow> string \<Rightarrow> string"

record 'f ModelTable = "'f LuaTable" +
  pieces :: "string \<Rightarrow> 'f LuaTable"

text \<open>
  What the parser takes from code that is not among the sources, as parameters:
  the importer's matrix decomposition (scaling, rotation, position), the construction of
  the baked rotation matrix from the rotation, the piece's table and whether the piece is
  the root (lines 311--371 of AssParser.cpp, whose matrix arithmetic is not interpreted),
  \<^verbatim>\<open>S3DModelPiece::ComposeTransform\<close> (the piece's baked rotation matrix, then the
  translation, rotation and scale arguments), \<^verbatim>\<open>CMatrix44f::Mul\<close>, the identity matrix,
  \<^verbatim>\<open>float3::Length\<close>, the constant \<^verbatim>\<open>0.5f\<close> and the bounds \<^verbatim>\<open>DEF_MIN_SIZE\<close> and
  \<^verbatim>\<open>DEF_MAX_SIZE\<close> of 3DModel.h.
\<close>

record ('f, 't, 'q, 'm) collab =
  Decompose :: "'t \<Rightarrow> 'f float3 \<times> 'q \<times> 'f float3"
  BakeRotation :: "'q \<Rightarrow> 'f LuaTable \<Rightarrow> bool \<Rightarrow> 'm"
  ComposeTransform :: "'m \<Rightarrow> 'f float3 \<Rightarrow> 'f float3 \<Rightarrow> 'f float3 \<Rightarrow> 'm"
  Mul :: "'m \<Rightarrow> 'f float3 \<Rightarrow> 'f float3"
  IdentityMatrix :: "'m"
  Length :: "'f float3 \<Rightarrow> 'f"
  half :: "'f"
  DEF_MIN_SIZE :: "'f float3"
  DEF_MAX_SIZE :: "'f float3"

text \<open>
  A scene node: its name, its local transform, the vertex positions of the meshes its
  mesh indices select in the scene, and its children. The parent pointer of a node is
  the list of the names of its ancestors, nearest first, that the traversal passes down.
\<close>

datatype ('f, 't) aiNode =
  aiNode (mName: string) (mTransformation: 't) (mMeshes: "'f float3 list list")
    (mChildren: "('f, 't) aiNode list")

text \<open>
  A piece. Pointers to pieces are addresses (indices into the store of the state below).
  The fields that no operation modelled here reads (normals, tangents, texture
  coordinates, draw indices, axis signs and mapping, the collision volume) are left out.
\<close>

record ('f, 'm) SAssPiece =
  name :: string
  parentName :: string
  parent :: "nat option"
  children :: "nat list"
  offset :: "'f float3"
  goffset :: "'f float3"
  scales :: "'f float3"
  mins :: "'f float3"
  maxs :: "'f float3"
  bakedRotMatrix :: 'm
  vertices :: "'f float3 list"
  hasGeometryData :: bool

text \<open>
  The model. \<^verbatim>\<open>pieceMap\<close> is a \<^verbatim>\<open>std::map\<close> from names to piece pointers: an association
  list kept in the order of its keys, which is the order its iterator follows.
\<close>

record 'f S3DModel =
  numPieces :: int
  pieceMap :: "(string \<times> nat) list"
  rootPiece :: "nat option"
  radius :: 'f
  height :: 'f
  drawRadius :: 'f
  relMidPos :: "'f float3"
  mins :: "'f float3"
  maxs :: "'f float3"

datatype LogLevel = L_DEBUG | L_INFO | L_WARNING | L_ERROR | L_FATAL

datatype LogMsg = MissingParent string string | MissingRootPiece

datatype error = content_error | bad_deref

text \<open>
  The state: the model under construction, the store of pieces (\<open>None\<close> at an address
  whose piece has been released; \<^verbatim>\<open>new\<close> takes the next address, and a released address
  is not handed out again) and the messages logged at error level or above.
\<close>

record ('f, 'm) state =
  model :: "'f S3DModel"
  heap :: "('f, 'm) SAssPiece option list"
  errlog :: "(LogLevel \<times> LogMsg) list"

definition deref :: "'a option list \<Rightarrow> nat \<Rightarrow> 'a option" where
  "deref h a = (if a < length h then h ! a else None)"

definition store :: "nat \<Rightarrow> ('f, 'm) SAssPiece \<Rightarrow> ('f, 'm) state \<Rightarrow> ('f, 'm) state" where
  "store a p st = st\<lparr>heap := (heap st)[a := Some p]\<rparr>"

section \<open>The texture handler\<close>

text \<open>
  \<^verbatim>\<open>CS3OTextureHandler::DoGetS3oTex\<close>: \<open>num\<close> is a 32-bit \<^verbatim>\<open>int\<close>, the size of the vector is
  cast to one, and the read of the vector is a branch of its own, \<open>Inl\<close> when the index
  is outside the vector.
\<close>

datatype access_error = out_of_bounds

definition vector_at :: "'a list \<Rightarrow> int \<Rightarrow> access_error + 'a" where
  "vector_at v i = (if 0 \<le> i \<and> i < int (length v) then Inr (v ! nat i) else Inl out_of_bounds)"

definition DoGetS3oTex :: "32 word \<Rightarrow> 'a list \<Rightarrow> access_error + 'a option" where
  "DoGetS3oTex num s3oTex =
     (if sint num < 0 \<or> sint num \<ge> sint (word_of_nat (length s3oTex) :: 32 word)
      then Inr None
      else map_sum id Some (vector_at s3oTex (sint num)))"

definition GetS3oTex :: "'a list \<Rightarrow> 32 word \<Rightarrow> access_error + 'a option" where
  "GetS3oTex s3oTextures num = DoGetS3oTex num s3oTextures"

section \<open>Piece names\<close>

text \<open>
  Modelled from the spec: \<^verbatim>\<open>IntToString(i, "%02i")\<close> (System/Util.h is not among the
  sources): the decimal digits of \<open>i\<close>, padded with a zero to two digits.
\<close>

definition digit_char :: "nat \<Rightarrow> char" where
  "digit_char d = char_of (48 + d)"

fun dec_string :: "nat \<Rightarrow> string" where
  "dec_string n =
     (if n < 10 then [digit_char n] else dec_string (n div 10) @ [digit_char (n mod 10)])"

declare dec_string.simps [simp del]

definition IntToString :: "nat \<Rightarrow> string" where
  "IntToString i = (if i < 10 then CHR ''0'' # dec_string i else dec_string i)"

definition digit_val :: "char \<Rightarrow> nat" where
  "digit_val c = of_char c - 48"

definition string_val :: "string \<Rightarrow> nat" where
  "string_val s = foldl (\<lambda>acc c. 10 * acc + digit_val c) 0 s"

lemma digit_val_digit_char: "d < 10 \<Longrightarrow> digit_val (digit_char d) = d"
  by (simp add: digit_val_def digit_char_def)

lemma string_val_snoc: "string_val (s @ [c]) = 10 * string_val s + digit_val c"
  by (simp add: string_val_def)

lemma string_val_dec_string: "string_val (dec_string n) = n"
proof (induction n rule: dec_string.induct)
  case (1 n)
  show ?case
  proof (cases "n < 10")
    case True
    then show ?thesis
      by (subst dec_string.simps) (simp add: string_val_def digit_val_digit_char)
  next
    case False
    with 1 have "string_val (dec_string (n div 10)) = n div 10" by simp
    with False show ?thesis
      by (subst dec_string.simps) (simp add: string_val_snoc digit_val_digit_char)
  qed
qed

lemma string_val_IntToString: "string_val (IntToString i) = i"
proof (cases "i < 10")
  case True
  have "string_val (CHR ''0'' # dec_string i) = string_val (dec_string i)"
    by (simp add: string_val_def digit_val_def)
  with True show ?thesis by (simp add: IntToString_def string_val_dec_string)
next
  case False
  then show ?thesis by (simp add: IntToString_def string_val_dec_string)
qed

lemma IntToString_inj: "IntToString i = IntToString j \<Longrightarrow> i = j"
  by (metis string_val_IntToString)

lemma finite_suffix_keys: "finite {j. base @ IntToString j \<in> K}" if "finite K"
proof -
  have "inj (\<lambda>j. base @ IntToString j)"
    by (rule injI) (simp add: IntToString_inj)
  then have "finite ((\<lambda>j. base @ IntToString j) -` K)"
    using that by (rule finite_vimageI[rotated])
  then show ?thesis by (simp add: vimage_def)
qed

text \<open>
  The loop of \<^verbatim>\<open>SetPieceName\<close>, entered when the name is a key of the map: the candidates
  \<open>base @ IntToString i\<close> for \<open>i = 0, 1, ...\<close>, the first that is not a key. The counter is
  an \<^verbatim>\<open>unsigned int\<close>; the loop leaves within one more step than the map has keys, so
  it does not wrap for a map of fewer than \<open>2^31\<close> entries, and it is a natural number here.
\<close>

function NewPieceName :: "(string \<times> nat) list \<Rightarrow> string \<Rightarrow> nat \<Rightarrow> string" where
  "NewPieceName pm base i =
     (if map_of pm (base @ IntToString i) \<noteq> None then NewPieceName pm base (Suc i)
      else base @ IntToString i)"
  by pat_completeness auto
termination
proof (relation "measure (\<lambda>(pm, base, i). card {j. i \<le> j \<and> base @ IntToString j \<in> fst ` set pm})")
  show "wf (measure (\<lambda>(pm, base, i). card {j. i \<le> j \<and> base @ IntToString j \<in> fst ` set pm}))"
    by simp
next
  fix pm :: "(string \<times> nat) list" and base :: string and i :: nat
  assume "map_of pm (base @ IntToString i) \<noteq> None"
  then have mem: "base @ IntToString i \<in> fst ` set pm"
    by (simp add: map_of_eq_None_iff)
  have fin: "finite {j. i \<le> j \<and> base @ IntToString j \<in> fst ` set pm}"
    by (rule finite_subset[OF _ finite_suffix_keys[of "fst ` set pm" base]]) auto
  have "{j. Suc i \<le> j \<and> base @ IntToString j \<in> fst ` set pm}
        \<subset> {j. i \<le> j \<and> base @ IntToString j \<in> fst ` set pm}"
    using mem by (auto simp: Suc_le_eq)
  then have "card {j. Suc i \<le> j \<and> base @ IntToString j \<in> fst ` set pm}
        < card {j. i \<le> j \<and> base @ IntToString j \<in> fst ` set pm}"
    using fin by (rule psubset_card_mono[rotated])
  then show "((pm, base, Suc i), (pm, base, i))
      \<in> measure (\<lambda>(pm, base, i). card {j. i \<le> j \<and> base @ IntToString j \<in> fst ` set pm})"
    by simp
qed

declare NewPieceName.simps [simp del]


section \<open>The parser\<close>

text \<open>
  \<^verbatim>\<open>std::min(a, b)\<close> is \<open>b\<close> when \<open>b < a\<close> and \<open>a\<close> otherwise; \<^verbatim>\<open>std::max(a, b)\<close> is \<open>b\<close>
  when \<open>a < b\<close> and \<open>a\<close> otherwise. Modelled from the spec: \<^verbatim>\<open>std::min\<close> and \<^verbatim>\<open>std::max\<close>
  on \<^verbatim>\<open>float3\<close> (System/float3.h is not among the sources), component-wise.
\<close>

definition std_min :: "('f::ord) \<Rightarrow> 'f \<Rightarrow> 'f" where
  "std_min a b = (if b < a then b else a)"

definition std_max :: "('f::ord) \<Rightarrow> 'f \<Rightarrow> 'f" where
  "std_max a b = (if a < b then b else a)"

definition float3_min :: "('f::ord) float3 \<Rightarrow> 'f float3 \<Rightarrow> 'f float3" where
  "float3_min u v =
     \<lparr>fx = std_min (fx u) (fx v), fy = std_min (fy u) (fy v), fz = std_min (fz u) (fz v)\<rparr>"

definition float3_max :: "('f::ord) float3 \<Rightarrow> 'f float3 \<Rightarrow> 'f float3" where
  "float3_max u v =
     \<lparr>fx = std_max (fx u) (fx v), fy = std_max (fy u) (fy v), fz = std_max (fz u) (fz v)\<rparr>"

text \<open>
  Modelled from the spec: the constructors of \<^verbatim>\<open>S3DModel\<close> and \<^verbatim>\<open>SAssPiece\<close> and
  \<^verbatim>\<open>S3DModel::FindPiece\<close> (3DModel.h is not among the sources). A new model has no
  piece, an empty map and no root, and the default bounds; a new piece has no name, no
  parent and no child, and the default bounds. \<^verbatim>\<open>FindPiece\<close> is the lookup in the map,
  null when the name is not a key.
\<close>

definition new_S3DModel :: "('f::zero, 't, 'q, 'm) collab \<Rightarrow> 'f S3DModel" where
  "new_S3DModel E =
     \<lparr>numPieces = 0, pieceMap = [], rootPiece = None, radius = 0, height = 0, drawRadius = 0,
      relMidPos = ZeroVector, mins = DEF_MIN_SIZE E, maxs = DEF_MAX_SIZE E\<rparr>"

definition new_SAssPiece :: "('f::{zero,one}, 't, 'q, 'm) collab \<Rightarrow> ('f, 'm) SAssPiece" where
  "new_SAssPiece E =
     \<lparr>name = [], parentName = [], parent = None, children = [], offset = ZeroVector,
      goffset = ZeroVector, scales = OnesVector, mins = DEF_MIN_SIZE E, maxs = DEF_MAX_SIZE E,
      bakedRotMatrix = IdentityMatrix E, vertices = [], hasGeometryData = False\<rparr>"

definition FindPiece :: "'f S3DModel \<Rightarrow> string \<Rightarrow> nat option" where
  "FindPiece mdl nm = map_of (pieceMap mdl) nm"

text \<open>\<^verbatim>\<open>model->pieceMap[k] = v\<close>: the value of an existing key is replaced.\<close>

fun pieceMap_insert :: "string \<Rightarrow> nat \<Rightarrow> (string \<times> nat) list \<Rightarrow> (string \<times> nat) list" where
  "pieceMap_insert k v [] = [(k, v)]"
| "pieceMap_insert k v ((k', v') # m) =
     (if k = k' then (k, v) # m
      else if k < k' then (k, v) # (k', v') # m
      else (k', v') # pieceMap_insert k v m)"

text \<open>
  \<^verbatim>\<open>SetPieceName\<close>. \<open>UniquePieceName\<close> is its last part: the lookup of the name and the loop
  over the suffixes.
\<close>

definition UniquePieceName :: "(string \<times> nat) list \<Rightarrow> string \<Rightarrow> string" where
  "UniquePieceName pm nm = (if map_of pm nm \<noteq> None then NewPieceName pm nm 0 else nm)"

definition SetPieceName ::
  "('f, 'm) SAssPiece \<Rightarrow> nat \<Rightarrow> 'f S3DModel \<Rightarrow> ('f, 't) aiNode \<Rightarrow> ('f, 'm) SAssPiece" where
  "SetPieceName piece a mdl pieceNode =
     (if mName pieceNode = [] then
        (if Some a = rootPiece mdl then piece\<lparr>name := ''$$root$$''\<rparr>
         else piece\<lparr>name := UniquePieceName (pieceMap mdl) ''$$piece$$''\<rparr>)
      else piece\<lparr>name := UniquePieceName (pieceMap mdl) (mName pieceNode)\<rparr>)"

text \<open>
  \<^verbatim>\<open>LoadPieceTransformations\<close>. \<open>MetadataScaling\<close> is its lines 288--291 (the override keys
  of the scale) and \<open>MetadataTranslation\<close> its lines 300--303.
\<close>

definition MetadataScaling :: "'f LuaTable \<Rightarrow> 'f float3 \<Rightarrow> 'f float3" where
  "MetadataScaling pieceTable aiScaleVec =
     (let s0 = GetFloat3 pieceTable ''scale'' aiScaleVec;
          s1 = s0\<lparr>fx := GetFloat pieceTable ''scalex'' (fx s0)\<rparr>;
          s2 = s1\<lparr>fy := GetFloat pieceTable ''scaley'' (fy s1)\<rparr>
      in s2\<lparr>fz := GetFloat pieceTable ''scalez'' (fz s2)\<rparr>)"

definition MetadataTranslation :: "'f LuaTable \<Rightarrow> 'f float3 \<Rightarrow> 'f float3" where
  "MetadataTranslation pieceTable aiTransVec =
     (let o0 = GetFloat3 pieceTable ''offset'' aiTransVec;
          o1 = o0\<lparr>fx := GetFloat pieceTable ''offsetx'' (fx o0)\<rparr>;
          o2 = o1\<lparr>fy := GetFloat pieceTable ''offsety'' (fy o1)\<rparr>
      in o2\<lparr>fz := GetFloat pieceTable ''offsetz'' (fz o2)\<rparr>)"

definition LoadPieceTransformations ::
  "('f, 't, 'q, 'm) collab \<Rightarrow> ('f, 'm) SAssPiece \<Rightarrow> nat \<Rightarrow> 'f S3DModel \<Rightarrow> ('f, 't) aiNode
     \<Rightarrow> 'f LuaTable \<Rightarrow> ('f, 'm) SAssPiece" where
  "LoadPieceTransformations E piece a mdl pieceNode pieceTable =
     (case Decompose E (mTransformation pieceNode) of
        (aiScaleVec, aiRotateQuat, aiTransVec) \<Rightarrow>
          (let s = MetadataScaling pieceTable aiScaleVec;
               s' = (if fx s \<noteq> fy s \<or> fy s \<noteq> fz s then s\<lparr>fy := fx s, fz := fx s\<rparr> else s)
           in piece\<lparr>scales := s',
                    offset := MetadataTranslation pieceTable aiTransVec,
                    bakedRotMatrix := BakeRotation E aiRotateQuat pieceTable (Some a = rootPiece mdl)\<rparr>))"

text \<open>
  \<^verbatim>\<open>SetModelRadiusAndHeight\<close>: the result is whether the piece was a marker, with the
  state after it. The test of its line 413 starts with \<^verbatim>\<open>true ||\<close>, so the radius is
  always the scale.
\<close>

definition SetModelRadiusAndHeight ::
  "('f::zero, 't, 'q, 'm) collab \<Rightarrow> ('f, 'm) state \<Rightarrow> nat \<Rightarrow> ('f, 'm) SAssPiece \<Rightarrow> 'f LuaTable
     \<Rightarrow> bool \<times> ('f, 'm) state" where
  "SetModelRadiusAndHeight E st a piece pieceTable =
     (if name piece = ''SpringHeight'' then
        (let m0 = model st;
             m1 = (if \<not> KeyExists pieceTable ''height''
                   then m0\<lparr>height := fy (offset piece)\<rparr> else m0);
             m2 = m1\<lparr>numPieces := numPieces m1 - 1\<rparr>
         in (True, st\<lparr>model := m2, heap := (heap st)[a := None]\<rparr>))
      else if name piece = ''SpringRadius'' then
        (let m0 = model st;
             m1 = (if \<not> KeyExists pieceTable ''midpos''
                   then m0\<lparr>relMidPos :=
                          Mul E (ComposeTransform E (bakedRotMatrix piece) ZeroVector ZeroVector
                            (scales piece)) (offset piece)\<rparr>
                   else m0);
             m2 = (if \<not> KeyExists pieceTable ''radius''
                   then m1\<lparr>radius := fx (scales piece)\<rparr> else m1);
             m3 = m2\<lparr>numPieces := numPieces m2 - 1\<rparr>
         in (True, st\<lparr>model := m3, heap := (heap st)[a := None]\<rparr>))
      else (False, st))"

text \<open>\<^verbatim>\<open>LoadPieceGeometry\<close>: the positions and the extents, mesh by mesh, vertex by vertex.\<close>

definition AddVertex :: "('f::ord, 'm) SAssPiece \<Rightarrow> 'f float3 \<Rightarrow> ('f, 'm) SAssPiece" where
  "AddVertex piece pos =
     piece\<lparr>SAssPiece.mins := float3_min (SAssPiece.mins piece) pos,
           SAssPiece.maxs := float3_max (SAssPiece.maxs piece) pos,
           vertices := vertices piece @ [pos]\<rparr>"

definition LoadPieceGeometry ::
  "('f::ord, 'm) SAssPiece \<Rightarrow> ('f, 't) aiNode \<Rightarrow> ('f, 'm) SAssPiece" where
  "LoadPieceGeometry piece pieceNode =
     (let p = foldl (\<lambda>p mesh. foldl AddVertex p mesh) piece (mMeshes pieceNode)
      in p\<lparr>hasGeometryData := (vertices p \<noteq> [])\<rparr>)"

text \<open>
  \<^verbatim>\<open>SetPieceParentName\<close>. \<open>anc\<close> holds the names of the node's ancestors: it is empty when
  \<^verbatim>\<open>mParent\<close> is null and has one entry when \<^verbatim>\<open>mParent->mParent\<close> is null.
\<close>

definition SetPieceParentName ::
  "('f, 'm) SAssPiece \<Rightarrow> ('f, 'm) state \<Rightarrow> string list \<Rightarrow> 'f LuaTable
     \<Rightarrow> error + ('f, 'm) SAssPiece" where
  "SetPieceParentName piece st anc pieceTable =
     (if KeyExists pieceTable ''parent''
      then Inr (piece\<lparr>parentName := GetString pieceTable ''parent'' []\<rparr>)
      else (case anc of
              [] \<Rightarrow> Inr piece
            | par # [] \<Rightarrow>
                (case rootPiece (model st) of
                   None \<Rightarrow> Inl bad_deref
                 | Some r \<Rightarrow>
                     (case deref (heap st) r of
                        None \<Rightarrow> Inl bad_deref
                      | Some rp \<Rightarrow> Inr (piece\<lparr>parentName := name rp\<rparr>)))
            | par # _ # _ \<Rightarrow> Inr (piece\<lparr>parentName := par\<rparr>)))"

text \<open>
  \<^verbatim>\<open>LoadPiece\<close>, in parts. \<open>LoadPiece_begin\<close> is its lines 594--617: the counter, the
  new piece, the root, the name, the table and the transforms; its result is the address
  of the piece, the table of the piece, the piece and the state. \<open>LoadPiece_node\<close> is the
  visit of the node itself, up to the loop over the children: \<open>LoadPiece_begin\<close>, the
  marker resolver and, for a piece that is no marker, the geometry and the parent name.
  Its result is \<open>None\<close> when the marker resolver consumed the piece (the function returns
  null), else the address of the piece and the piece. \<open>piece\<close> is a local pointer and
  the object is changed through it only, so the object is a value here, written to the
  store where the code that follows can read the store.
\<close>

definition LoadPiece_begin ::
  "('f::{ord,zero,one}, 't, 'q, 'm) collab \<Rightarrow> 'f ModelTable \<Rightarrow> ('f, 'm) state \<Rightarrow> string list
     \<Rightarrow> ('f, 't) aiNode \<Rightarrow> nat \<times> 'f LuaTable \<times> ('f, 'm) SAssPiece \<times> ('f, 'm) state" where
  "LoadPiece_begin E modelTable st anc pieceNode =
     (let st1 = st\<lparr>model := (model st)\<lparr>numPieces := numPieces (model st) + 1\<rparr>\<rparr>;
          a = length (heap st1);
          st2 = st1\<lparr>heap := heap st1 @ [Some (new_SAssPiece E)]\<rparr>;
          st3 = (if anc = [] then st2\<lparr>model := (model st2)\<lparr>rootPiece := Some a\<rparr>\<rparr> else st2);
          p1 = SetPieceName (new_SAssPiece E) a (model st3) pieceNode;
          pieceTable = pieces modelTable (name p1);
          p2 = LoadPieceTransformations E p1 a (model st3) pieceNode pieceTable
      in (a, pieceTable, p2, store a p2 st3))"

definition LoadPiece_node ::
  "('f::{ord,zero,one}, 't, 'q, 'm) collab \<Rightarrow> 'f ModelTable \<Rightarrow> ('f, 'm) state \<Rightarrow> string list
     \<Rightarrow> ('f, 't) aiNode \<Rightarrow> error + ((nat \<times> ('f, 'm) SAssPiece) option \<times> ('f, 'm) state)" where
  "LoadPiece_node E modelTable st anc pieceNode =
     (case LoadPiece_begin E modelTable st anc pieceNode of
        (a, pieceTable, p2, st3) \<Rightarrow>
          (case SetModelRadiusAndHeight E st3 a p2 pieceTable of
             (True, st4) \<Rightarrow> Inr (None, st4)
           | (False, st4) \<Rightarrow>
               (let p3 = LoadPieceGeometry p2 pieceNode
                in case SetPieceParentName p3 (store a p3 st4) anc pieceTable of
                     Inl e \<Rightarrow> Inl e
                   | Inr p4 \<Rightarrow> Inr (Some (a, p4), store a p4 st4))))"

fun LoadPiece ::
  "('f::{ord,zero,one}, 't, 'q, 'm) collab \<Rightarrow> 'f ModelTable \<Rightarrow> ('f, 'm) state \<Rightarrow> string list
     \<Rightarrow> ('f, 't) aiNode \<Rightarrow> error + (nat option \<times> ('f, 'm) state)"
and LoadPiece_children ::
  "('f, 't, 'q, 'm) collab \<Rightarrow> 'f ModelTable \<Rightarrow> ('f, 'm) state \<Rightarrow> string list
     \<Rightarrow> ('f, 't) aiNode list \<Rightarrow> error + ('f, 'm) state"
where
  "LoadPiece E modelTable st anc (aiNode nm tr ms cs) =
     (case LoadPiece_node E modelTable st anc (aiNode nm tr ms cs) of
        Inl e \<Rightarrow> Inl e
      | Inr (None, st') \<Rightarrow> Inr (None, st')
      | Inr (Some (a, piece), st') \<Rightarrow>
          (case LoadPiece_children E modelTable st' (nm # anc) cs of
             Inl e \<Rightarrow> Inl e
           | Inr st'' \<Rightarrow>
               Inr (Some a,
                    st''\<lparr>model := (model st'')\<lparr>pieceMap :=
                      pieceMap_insert (name piece) a (pieceMap (model st''))\<rparr>\<rparr>)))"
| "LoadPiece_children E modelTable st anc [] = Inr st"
| "LoadPiece_children E modelTable st anc (c # cs) =
     (case LoadPiece E modelTable st anc c of
        Inl e \<Rightarrow> Inl e
      | Inr (_, st') \<Rightarrow> LoadPiece_children E modelTable st' anc cs)"

text \<open>
  \<^verbatim>\<open>BuildPieceHierarchy\<close>. \<open>AddChild\<close> is \<^verbatim>\<open>piece->parent->children.push_back(piece)\<close>,
  \<open>LinkPiece\<close> the body of the loop for one entry of the map, and the loop follows the
  map in the order of its keys. The assertions are those of a debug build and are not
  part of the model; a read through a null or released pointer is the error \<open>bad_deref\<close>.
\<close>

definition AddChild :: "nat \<Rightarrow> nat \<Rightarrow> ('f, 'm) state \<Rightarrow> error + ('f, 'm) state" where
  "AddChild pa a st =
     (case deref (heap st) pa of
        None \<Rightarrow> Inl bad_deref
      | Some pp \<Rightarrow> Inr (store pa (pp\<lparr>children := children pp @ [a]\<rparr>) st))"

definition LinkPiece :: "('f, 'm) state \<Rightarrow> string \<times> nat \<Rightarrow> error + ('f, 'm) state" where
  "LinkPiece st e =
     (let a = snd e in
      if Some a = rootPiece (model st) then Inr st
      else (case deref (heap st) a of
              None \<Rightarrow> Inl bad_deref
            | Some piece \<Rightarrow>
                if parentName piece \<noteq> [] then
                  (case FindPiece (model st) (parentName piece) of
                     None \<Rightarrow>
                       Inr ((store a (piece\<lparr>parent := None\<rparr>) st)
                         \<lparr>errlog := errlog st
                            @ [(L_ERROR, MissingParent (parentName piece) (name piece))]\<rparr>)
                   | Some pa \<Rightarrow> AddChild pa a (store a (piece\<lparr>parent := Some pa\<rparr>) st))
                else
                  (case rootPiece (model st) of
                     None \<Rightarrow>
                       Inr ((store a (piece\<lparr>parent := None\<rparr>) st)
                         \<lparr>errlog := errlog st @ [(L_ERROR, MissingRootPiece)]\<rparr>)
                   | Some r \<Rightarrow> AddChild r a (store a (piece\<lparr>parent := Some r\<rparr>) st))))"

fun LinkPieces :: "('f, 'm) state \<Rightarrow> (string \<times> nat) list \<Rightarrow> error + ('f, 'm) state" where
  "LinkPieces st [] = Inr st"
| "LinkPieces st (e # es) =
     (case LinkPiece st e of Inl err \<Rightarrow> Inl err | Inr st' \<Rightarrow> LinkPieces st' es)"

definition BuildPieceHierarchy :: "('f, 'm) state \<Rightarrow> error + ('f, 'm) state" where
  "BuildPieceHierarchy st = LinkPieces st (pieceMap (model st))"

text \<open>
  \<^verbatim>\<open>CalculateModelDimensions\<close>. The recursion follows pointers, so it takes fuel: the
  result is \<open>None\<close> when the fuel is used up, \<open>Some (Inl bad_deref)\<close> when a null or
  released pointer is read and \<open>Some (Inr st)\<close> when the function returns. The fuel
  bounds the depth of the recursion, not the number of pieces visited.
\<close>

fun CalculateModelDimensions ::
  "('f::{ord,zero,plus}, 't, 'q, 'm) collab \<Rightarrow> nat \<Rightarrow> ('f, 'm) state \<Rightarrow> nat
     \<Rightarrow> (error + ('f, 'm) state) option"
and CalculateModelDimensions_children ::
  "('f, 't, 'q, 'm) collab \<Rightarrow> nat \<Rightarrow> ('f, 'm) state \<Rightarrow> nat list
     \<Rightarrow> (error + ('f, 'm) state) option"
where
  "CalculateModelDimensions E 0 st a = None"
| "CalculateModelDimensions E (Suc n) st a =
     (case deref (heap st) a of
        None \<Rightarrow> Some (Inl bad_deref)
      | Some piece \<Rightarrow>
          (case (case parent piece of
                   None \<Rightarrow> Some ZeroVector
                 | Some pa \<Rightarrow> map_option goffset (deref (heap st) pa)) of
             None \<Rightarrow> Some (Inl bad_deref)
           | Some pg \<Rightarrow>
               (let g = vadd (Mul E (ComposeTransform E (bakedRotMatrix piece) ZeroVector
                                       ZeroVector (scales piece)) (offset piece)) pg;
                    m = model st;
                    m' = m\<lparr>S3DModel.mins := float3_min (vadd g (SAssPiece.mins piece)) (S3DModel.mins m),
                           S3DModel.maxs := float3_max (vadd g (SAssPiece.maxs piece)) (S3DModel.maxs m)\<rparr>
                in CalculateModelDimensions_children E n
                     (store a (piece\<lparr>goffset := g\<rparr>) (st\<lparr>model := m'\<rparr>)) (children piece))))"
| "CalculateModelDimensions_children E n st [] = Some (Inr st)"
| "CalculateModelDimensions_children E n st (c # cs) =
     (case CalculateModelDimensions E n st c of
        Some (Inr st') \<Rightarrow> CalculateModelDimensions_children E n st' cs
      | r \<Rightarrow> r)"

text \<open>\<^verbatim>\<open>CalculateModelProperties\<close>: the bounds pass from the root, then the overrides.\<close>

definition FinalizeModel ::
  "('f::{ord,zero,plus,times,abs}, 't, 'q, 'm) collab \<Rightarrow> 'f ModelTable \<Rightarrow> 'f S3DModel
     \<Rightarrow> 'f S3DModel" where
  "FinalizeModel E modelTable m0 =
     (let m1 = m0\<lparr>relMidPos := (relMidPos m0)
                 \<lparr>fy := (fy (S3DModel.maxs m0) + fy (S3DModel.mins m0)) * half E\<rparr>\<rparr>;
          m2 = m1\<lparr>radius := GetFloat modelTable ''radius''
                 (Length E (float3_max (vfabs (S3DModel.maxs m1)) (vfabs (S3DModel.mins m1))))\<rparr>;
          m3 = m2\<lparr>height := GetFloat modelTable ''height'' (fy (S3DModel.maxs m2))\<rparr>;
          m4 = m3\<lparr>relMidPos := GetFloat3 modelTable ''midpos'' (relMidPos m3)\<rparr>;
          m5 = m4\<lparr>S3DModel.mins := GetFloat3 modelTable ''mins'' (S3DModel.mins m4)\<rparr>;
          m6 = m5\<lparr>S3DModel.maxs := GetFloat3 modelTable ''maxs'' (S3DModel.maxs m5)\<rparr>
      in m6\<lparr>drawRadius := radius m6\<rparr>)"

definition CalculateModelProperties ::
  "('f::{ord,zero,plus,times,abs}, 't, 'q, 'm) collab \<Rightarrow> 'f ModelTable \<Rightarrow> nat \<Rightarrow> ('f, 'm) state
     \<Rightarrow> (error + ('f, 'm) state) option" where
  "CalculateModelProperties E modelTable fuel st =
     (case rootPiece (model st) of
        None \<Rightarrow> Some (Inl bad_deref)
      | Some r \<Rightarrow>
          (case CalculateModelDimensions E fuel st r of
             Some (Inr st') \<Rightarrow> Some (Inr (st'\<lparr>model := FinalizeModel E modelTable (model st')\<rparr>))
           | r \<Rightarrow> r))"

text \<open>
  \<^verbatim>\<open>Load\<close>, from the scene the importer returns (\<open>None\<close> when the import failed, which
  throws \<^verbatim>\<open>content_error\<close>). The lookup of the textures is not part of the model. The
  fuel of the bounds pass is one more than the number of pieces ever created, which no
  chain of distinct pieces exceeds.
\<close>

definition Load ::
  "('f::{ord,zero,one,plus,times,abs}, 't, 'q, 'm) collab \<Rightarrow> 'f ModelTable
     \<Rightarrow> ('f, 't) aiNode option \<Rightarrow> (error + ('f, 'm) state) option" where
  "Load E modelTable scene =
     (case scene of
        None \<Rightarrow> Some (Inl content_error)
      | Some mRootNode \<Rightarrow>
          (case LoadPiece E modelTable \<lparr>model = new_S3DModel E, heap = [], errlog = []\<rparr> []
                  mRootNode of
             Inl e \<Rightarrow> Some (Inl e)
           | Inr (_, st1) \<Rightarrow>
               (case BuildPieceHierarchy st1 of
                  Inl e \<Rightarrow> Some (Inl e)
                | Inr st2 \<Rightarrow> CalculateModelProperties E modelTable (Suc (length (heap st2))) st2)))"

section \<open>The hierarchy after linking, in closed form\<close>

text \<open>
  What the linking pass is to establish, stated from the state before the pass.
  \<open>LinkTarget\<close> is the parent a piece is to get: the piece the map holds under its
  \<open>parentName\<close> when that is not empty, the root otherwise; \<open>None\<close> when there is no such
  piece. \<open>Linked\<close> lists the pieces of the entries that are not the root, in the order
  of the map; \<open>NewChildren\<close> those among them that are to be attached to a given
  piece; \<open>LinkedPiece\<close> is a piece after the pass; \<open>LinkLog\<close> the messages of the pass.
\<close>

definition LinkTarget :: "('f, 'm) state \<Rightarrow> ('f, 'm) SAssPiece \<Rightarrow> nat option" where
  "LinkTarget st p =
     (if parentName p \<noteq> [] then FindPiece (model st) (parentName p) else rootPiece (model st))"

definition Linked :: "('f, 'm) state \<Rightarrow> (string \<times> nat) list \<Rightarrow> nat list" where
  "Linked st es = filter (\<lambda>a. Some a \<noteq> rootPiece (model st)) (map snd es)"

definition NewChildren :: "('f, 'm) state \<Rightarrow> (string \<times> nat) list \<Rightarrow> nat \<Rightarrow> nat list" where
  "NewChildren st es b =
     filter (\<lambda>a. case deref (heap st) a of None \<Rightarrow> False | Some p \<Rightarrow> LinkTarget st p = Some b)
       (Linked st es)"

definition LinkedPiece ::
  "('f, 'm) state \<Rightarrow> (string \<times> nat) list \<Rightarrow> nat \<Rightarrow> ('f, 'm) SAssPiece \<Rightarrow> ('f, 'm) SAssPiece" where
  "LinkedPiece st es b p =
     p\<lparr>parent := (if b \<in> set (Linked st es) then LinkTarget st p else parent p),
       children := children p @ NewChildren st es b\<rparr>"

definition LinkMessages :: "('f, 'm) state \<Rightarrow> nat \<Rightarrow> (LogLevel \<times> LogMsg) list" where
  "LinkMessages st a =
     (case deref (heap st) a of
        None \<Rightarrow> []
      | Some p \<Rightarrow>
          if LinkTarget st p \<noteq> None then []
          else if parentName p \<noteq> [] then [(L_ERROR, MissingParent (parentName p) (name p))]
          else [(L_ERROR, MissingRootPiece)])"

definition LinkLog :: "('f, 'm) state \<Rightarrow> (string \<times> nat) list \<Rightarrow> (LogLevel \<times> LogMsg) list" where
  "LinkLog st es = concat (map (LinkMessages st) (Linked st es))"

section \<open>The hierarchy as a tree, and the bounds pass in closed form\<close>

text \<open>
  A tree of addresses, and \<open>hierarchy h par t\<close>: in the store \<open>h\<close> the piece at the root of
  \<open>t\<close> is live and has the parent \<open>par\<close>, its children are the roots of the subtrees of
  \<open>t\<close> in their order, and so on down the tree. \<open>pt_nodes\<close> lists the addresses of a tree
  in the order of the traversal, \<open>pt_chains\<close> its chains from the root to a node, and
  \<open>pt_depth\<close> is its depth. \<open>TransformedOffset\<close> is the local offset of a piece under
  the piece's own matrix of scale and rotation, composed with a zero translation.
  \<open>Goffsets\<close> computes, from the store before the pass, the global offset every piece of
  a tree is to get; \<open>ChainOffset\<close> adds up the transformed offsets along a chain, root
  first; \<open>MinCorners\<close> and \<open>MaxCorners\<close> list \<open>goffset + mins\<close> and \<open>goffset + maxs\<close> of the
  live pieces among the given addresses; \<open>float3_Min\<close> and \<open>float3_Max\<close> are the
  component-wise minimum and maximum of a list of vectors.
\<close>

datatype ptree = PTree nat "ptree list"

fun pt_addr :: "ptree \<Rightarrow> nat" where
  "pt_addr (PTree a ts) = a"

fun pt_nodes :: "ptree \<Rightarrow> nat list" where
  "pt_nodes (PTree a ts) = a # concat (map pt_nodes ts)"

fun pt_depth :: "ptree \<Rightarrow> nat" where
  "pt_depth (PTree a ts) = Suc (foldr max (map pt_depth ts) 0)"

fun hierarchy :: "('f, 'm) SAssPiece option list \<Rightarrow> nat option \<Rightarrow> ptree \<Rightarrow> bool" where
  "hierarchy h par (PTree a ts) =
     (case deref h a of
        None \<Rightarrow> False
      | Some p \<Rightarrow> parent p = par \<and> children p = map pt_addr ts
          \<and> (\<forall>t \<in> set ts. hierarchy h (Some a) t))"

definition TransformedOffset ::
  "('f::zero, 't, 'q, 'm) collab \<Rightarrow> ('f, 'm) SAssPiece \<Rightarrow> 'f float3" where
  "TransformedOffset E p =
     Mul E (ComposeTransform E (bakedRotMatrix p) ZeroVector ZeroVector (scales p)) (offset p)"

fun Goffsets ::
  "('f::{zero,plus}, 't, 'q, 'm) collab \<Rightarrow> ('f, 'm) SAssPiece option list \<Rightarrow> 'f float3 \<Rightarrow> ptree
     \<Rightarrow> (nat \<times> 'f float3) list" where
  "Goffsets E h pg (PTree a ts) =
     (case deref h a of
        None \<Rightarrow> []
      | Some p \<Rightarrow>
          (a, vadd (TransformedOffset E p) pg)
            # concat (map (Goffsets E h (vadd (TransformedOffset E p) pg)) ts))"

definition SetGoffset ::
  "(nat \<times> 'f float3) list \<Rightarrow> nat \<Rightarrow> ('f, 'm) SAssPiece \<Rightarrow> ('f, 'm) SAssPiece" where
  "SetGoffset gs b p = (case map_of gs b of None \<Rightarrow> p | Some g \<Rightarrow> p\<lparr>goffset := g\<rparr>)"

definition BoundsMin ::
  "('f::{ord,plus}, 'm) SAssPiece option list \<Rightarrow> 'f float3 \<Rightarrow> (nat \<times> 'f float3) list \<Rightarrow> 'f float3" where
  "BoundsMin h m0 gs =
     foldl (\<lambda>m (a, g). case deref h a of None \<Rightarrow> m
                       | Some p \<Rightarrow> float3_min (vadd g (SAssPiece.mins p)) m) m0 gs"

definition BoundsMax ::
  "('f::{ord,plus}, 'm) SAssPiece option list \<Rightarrow> 'f float3 \<Rightarrow> (nat \<times> 'f float3) list \<Rightarrow> 'f float3" where
  "BoundsMax h m0 gs =
     foldl (\<lambda>m (a, g). case deref h a of None \<Rightarrow> m
                       | Some p \<Rightarrow> float3_max (vadd g (SAssPiece.maxs p)) m) m0 gs"

definition VisitedBy ::
  "(nat \<times> 'f float3) list \<Rightarrow> ('f::{ord,plus}, 'm) state \<Rightarrow> ('f, 'm) state \<Rightarrow> bool" where
  "VisitedBy gs st st' \<longleftrightarrow>
     errlog st' = errlog st
     \<and> model st' = (model st)
         \<lparr>S3DModel.mins := BoundsMin (heap st) (S3DModel.mins (model st)) gs,
          S3DModel.maxs := BoundsMax (heap st) (S3DModel.maxs (model st)) gs\<rparr>
     \<and> (\<forall>b. deref (heap st') b = map_option (SetGoffset gs b) (deref (heap st) b))"

definition goffset_variant ::
  "('f, 'm) SAssPiece option list \<Rightarrow> ('f, 'm) SAssPiece option list \<Rightarrow> bool" where
  "goffset_variant h h' \<longleftrightarrow>
     (\<forall>b. \<exists>g. deref h' b = map_option (\<lambda>p. p\<lparr>goffset := g\<rparr>) (deref h b))"

fun pt_chains :: "ptree \<Rightarrow> nat list list" where
  "pt_chains (PTree a ts) = [a] # map ((#) a) (concat (map pt_chains ts))"

definition ChainOffset ::
  "('f::{zero,plus}, 't, 'q, 'm) collab \<Rightarrow> ('f, 'm) SAssPiece option list \<Rightarrow> 'f float3 \<Rightarrow> nat list
     \<Rightarrow> 'f float3" where
  "ChainOffset E h pg ch =
     foldl (\<lambda>g a. case deref h a of None \<Rightarrow> g | Some p \<Rightarrow> vadd (TransformedOffset E p) g) pg ch"

definition MinCorners :: "('f::plus, 'm) SAssPiece option list \<Rightarrow> nat list \<Rightarrow> 'f float3 list" where
  "MinCorners h as =
     concat (map (\<lambda>a. case deref h a of None \<Rightarrow> []
                       | Some p \<Rightarrow> [vadd (goffset p) (SAssPiece.mins p)]) as)"

definition MaxCorners :: "('f::plus, 'm) SAssPiece option list \<Rightarrow> nat list \<Rightarrow> 'f float3 list" where
  "MaxCorners h as =
     concat (map (\<lambda>a. case deref h a of None \<Rightarrow> []
                       | Some p \<Rightarrow> [vadd (goffset p) (SAssPiece.maxs p)]) as)"

definition float3_Min :: "('f::linorder) float3 list \<Rightarrow> 'f float3" where
  "float3_Min vs = \<lparr>fx = Min (fx ` set vs), fy = Min (fy ` set vs), fz = Min (fz ` set vs)\<rparr>"

definition float3_Max :: "('f::linorder) float3 list \<Rightarrow> 'f float3" where
  "float3_Max vs = \<lparr>fx = Max (fx ` set vs), fy = Max (fy ` set vs), fz = Max (fz ` set vs)\<rparr>"

section \<open>The piece map across the load, in closed form\<close>

text \<open>
  \<open>heap_extends h h'\<close>: the store \<open>h'\<close> has every address of \<open>h\<close>, with the same content.
  \<open>pieceMap_named st\<close>: no key of the map is the name of a marker, and every entry of the
  map holds a live piece whose name is the key of the entry. \<open>same_names st st'\<close>: the two
  states have the same map, and at every address the same liveness and the same name.
\<close>

definition heap_extends ::
  "('f, 'm) SAssPiece option list \<Rightarrow> ('f, 'm) SAssPiece option list \<Rightarrow> bool" where
  "heap_extends h h' \<longleftrightarrow>
     length h \<le> length h' \<and> (\<forall>b < length h. deref h' b = deref h b)"

definition pieceMap_named :: "('f, 'm) state \<Rightarrow> bool" where
  "pieceMap_named st \<longleftrightarrow>
     (\<forall>(k, b) \<in> set (pieceMap (model st)).
        k \<noteq> ''SpringHeight'' \<and> k \<noteq> ''SpringRadius''
        \<and> map_option name (deref (heap st) b) = Some k)"

definition same_names ::
  "('f, 'm) state \<Rightarrow> ('f, 'm) state \<Rightarrow> bool" where
  "same_names st st' \<longleftrightarrow>
     pieceMap (model st') = pieceMap (model st)
     \<and> (\<forall>b. map_option name (deref (heap st') b) = map_option name (deref (heap st) b))"

section \<open>Concrete scenes\<close>

text \<open>
  A concrete instance of the collaborators, with \<open>real\<close> for the floats: a transform is
  the pair of its scaling and its position, every baked rotation is the identity, and the
  scale-and-rotation matrix of a piece is the diagonal of its scales. \<open>markerScene\<close> has a
  root with a height marker (which has a child of its own), a radius marker and a turret;
  \<open>rootVisited\<close> is the state when the children of its root are about to be visited.
\<close>

definition vmul :: "real float3 \<Rightarrow> real float3 \<Rightarrow> real float3" where
  "vmul u v = \<lparr>fx = fx u * fx v, fy = fy u * fy v, fz = fz u * fz v\<rparr>"

definition vec :: "real \<Rightarrow> real \<Rightarrow> real \<Rightarrow> real float3" where
  "vec a b c = \<lparr>fx = a, fy = b, fz = c\<rparr>"

definition testCollab :: "(real, real float3 \<times> real float3, unit, real float3) collab" where
  "testCollab =
     \<lparr>Decompose = (\<lambda>t. (fst t, (), snd t)),
      BakeRotation = (\<lambda>q pieceTable isRoot. OnesVector),
      ComposeTransform = (\<lambda>m t r s. vmul m s),
      Mul = vmul,
      IdentityMatrix = OnesVector,
      Length = (\<lambda>v. fx v + fy v + fz v),
      half = 1 / 2,
      DEF_MIN_SIZE = vec 10000 10000 10000,
      DEF_MAX_SIZE = vec (- 10000) (- 10000) (- 10000)\<rparr>"

definition emptyTable :: "real LuaTable" where
  "emptyTable =
     \<lparr>KeyExists = (\<lambda>k. False), GetFloat = (\<lambda>k d. d), GetFloat3 = (\<lambda>k d. d),
      GetString = (\<lambda>k d. d)\<rparr>"

definition emptyMeta :: "real ModelTable" where
  "emptyMeta =
     \<lparr>KeyExists = (\<lambda>k. False), GetFloat = (\<lambda>k d. d), GetFloat3 = (\<lambda>k d. d),
      GetString = (\<lambda>k d. d), pieces = (\<lambda>nm. emptyTable)\<rparr>"

definition newState :: "(real, real float3) state" where
  "newState = \<lparr>model = new_S3DModel testCollab, heap = [], errlog = []\<rparr>"

definition heightNode :: "(real, real float3 \<times> real float3) aiNode" where
  "heightNode =
     aiNode ''SpringHeight'' (vec 1 1 1, vec 0 42 0) [[vec 0 0 0, vec 1 1 1]]
       [aiNode ''Lost'' (vec 1 1 1, vec 0 0 0) [] []]"

definition radiusNode :: "(real, real float3 \<times> real float3) aiNode" where
  "radiusNode = aiNode ''SpringRadius'' (vec 3 4 5, vec 1 2 3) [] []"

definition turretNode :: "(real, real float3 \<times> real float3) aiNode" where
  "turretNode =
     aiNode ''Turret'' (vec 1 1 1, vec 0 2 0) [[vec (- 1) (- 1) (- 1), vec 1 1 1]] []"

definition markerScene :: "(real, real float3 \<times> real float3) aiNode" where
  "markerScene = aiNode ''R'' (vec 1 1 1, vec 0 0 0) [] [heightNode, radiusNode, turretNode]"

definition rootVisited :: "(real, real float3) state" where
  "rootVisited =
     (case LoadPiece_node testCollab emptyMeta newState [] markerScene of
        Inr (_, st) \<Rightarrow> st
      | Inl _ \<Rightarrow> newState)"

text \<open>
  \<open>chainScene\<close>, without metadata: a root with a child \<open>A\<close>, which has a child \<open>C\<close> of
  scale 2, and an unnamed child, which has a child \<open>D\<close>; \<open>D\<close> gets the empty name of its
  parent node as parent name. \<open>chainLoaded\<close> is the state the first pass leaves for it,
  \<open>chainLinked\<close> the state after the linking pass and \<open>chainTree\<close> its hierarchy.
  \<open>detachedScene\<close> with the table \<open>missingMeta\<close>, in which every piece declares the parent
  \<open>Missing\<close>: a root and a child \<open>B\<close>; \<open>detachedLoaded\<close> is the state the first pass leaves
  for it. \<open>orphanNoRoot\<close> is a model with one piece without parent name and no root piece.
\<close>

definition parentTable :: "string \<Rightarrow> real LuaTable" where
  "parentTable par =
     \<lparr>KeyExists = (\<lambda>k. k = ''parent''), GetFloat = (\<lambda>k d. d), GetFloat3 = (\<lambda>k d. d),
      GetString = (\<lambda>k d. if k = ''parent'' then par else d)\<rparr>"

definition missingMeta :: "real ModelTable" where
  "missingMeta =
     \<lparr>KeyExists = (\<lambda>k. False), GetFloat = (\<lambda>k d. d), GetFloat3 = (\<lambda>k d. d),
      GetString = (\<lambda>k d. d), pieces = (\<lambda>nm. parentTable ''Missing'')\<rparr>"

definition unitCube :: "real float3 list" where
  "unitCube = [vec (- 1) (- 1) (- 1), vec 1 1 1]"

definition bigCube :: "real float3 list" where
  "bigCube = [vec (- 5) (- 5) (- 5), vec 5 5 5]"

definition loadedPiece ::
  "string \<Rightarrow> string \<Rightarrow> real float3 \<Rightarrow> real float3 list \<Rightarrow> (real, real float3) SAssPiece" where
  "loadedPiece nm par off vs =
     (foldl AddVertex (new_SAssPiece testCollab) vs)
       \<lparr>name := nm, parentName := par, offset := off, hasGeometryData := (vs \<noteq> [])\<rparr>"

definition chainScene :: "(real, real float3 \<times> real float3) aiNode" where
  "chainScene =
     aiNode ''R'' (vec 1 1 1, vec 0 0 0) [unitCube]
       [aiNode ''A'' (vec 1 1 1, vec 0 2 0) []
          [aiNode ''C'' (vec 2 2 2, vec 1 0 0) [unitCube] []],
        aiNode [] (vec 1 1 1, vec 0 0 0) []
          [aiNode ''D'' (vec 1 1 1, vec 0 0 3) [] []]]"

definition chainLoaded :: "(real, real float3) state" where
  "chainLoaded =
     \<lparr>model = (new_S3DModel testCollab)
        \<lparr>numPieces := 5,
         pieceMap := [(''$$piece$$'', 3), (''A'', 1), (''C'', 2), (''D'', 4), (''R'', 0)],
         rootPiece := Some 0\<rparr>,
      heap = [Some (loadedPiece ''R'' [] (vec 0 0 0) unitCube),
              Some (loadedPiece ''A'' ''R'' (vec 0 2 0) []),
              Some ((loadedPiece ''C'' ''A'' (vec 1 0 0) unitCube)\<lparr>scales := vec 2 2 2\<rparr>),
              Some (loadedPiece ''$$piece$$'' ''R'' (vec 0 0 0) []),
              Some (loadedPiece ''D'' [] (vec 0 0 3) [])],
      errlog = []\<rparr>"

definition chainLinked :: "(real, real float3) state" where
  "chainLinked = (case BuildPieceHierarchy chainLoaded of Inr st \<Rightarrow> st | Inl e \<Rightarrow> chainLoaded)"

definition chainTree :: ptree where
  "chainTree = PTree 0 [PTree 3 [], PTree 1 [PTree 2 []], PTree 4 []]"

definition detachedScene :: "(real, real float3 \<times> real float3) aiNode" where
  "detachedScene =
     aiNode ''R'' (vec 1 1 1, vec 0 0 0) [unitCube]
       [aiNode ''B'' (vec 1 1 1, vec 0 0 0) [bigCube] []]"

definition detachedLoaded :: "(real, real float3) state" where
  "detachedLoaded =
     \<lparr>model = (new_S3DModel testCollab)
        \<lparr>numPieces := 2, pieceMap := [(''B'', 1), (''R'', 0)], rootPiece := Some 0\<rparr>,
      heap = [Some (loadedPiece ''R'' ''Missing'' (vec 0 0 0) unitCube),
              Some (loadedPiece ''B'' ''Missing'' (vec 0 0 0) bigCube)],
      errlog = []\<rparr>"

definition orphanNoRoot :: "(real, real float3) state" where
  "orphanNoRoot =
     \<lparr>model = (new_S3DModel testCollab)\<lparr>pieceMap := [(''A'', 0)]\<rparr>,
      heap = [Some ((new_SAssPiece testCollab)\<lparr>name := ''A''\<rparr>)],
      errlog = []\<rparr>"

text \<open>\<open>nestedScene\<close>: a root whose child \<open>A\<close> has a child that is also named \<open>A\<close>.\<close>

definition nestedScene :: "(real, real float3 \<times> real float3) aiNode" where
  "nestedScene =
     aiNode ''R'' (vec 1 1 1, vec 0 0 0) []
       [aiNode ''A'' (vec 1 1 1, vec 0 0 0) [] [aiNode ''A'' (vec 1 1 1, vec 0 0 0) [] []]]"

text \<open>\<open>siblingScene\<close>: a root with three children named \<open>Turret\<close>.\<close>

definition siblingScene :: "(real, real float3 \<times> real float3) aiNode" where
  "siblingScene =
     aiNode ''R'' (vec 1 1 1, vec 0 0 0) []
       [aiNode ''Turret'' (vec 1 1 1, vec 0 0 0) [] [],
        aiNode ''Turret'' (vec 1 1 1, vec 0 0 0) [] [],
        aiNode ''Turret'' (vec 1 1 1, vec 0 0 0) [] []]"

section \<open>The texture handler: bounds\<close>

lemma sint_of_nat_le: "sint (word_of_nat n :: 32 word) \<le> int n"
proof -
  have "sint (word_of_nat n :: 32 word) = signed_take_bit 31 (int n)"
    by (simp add: signed_of_nat)
  also have "\<dots> \<le> int n"
    by (simp add: signed_take_bit_int_less_eq_self_iff)
  finally show ?thesis .
qed

lemma sint_of_nat_small: "n < 2^31 \<Longrightarrow> sint (word_of_nat n :: 32 word) = int n"
proof -
  assume "n < 2^31"
  then have "int n < 2^31" by simp
  then have "signed_take_bit 31 (int n) = int n"
    by (intro signed_take_bit_int_eq_self) simp_all
  then show ?thesis by (simp add: signed_of_nat)
qed

text \<open>
  C10. \<^verbatim>\<open>GetS3oTex(num)\<close> never reads the texture vector outside its bounds, whatever
  \<open>num\<close> and the vector are. When the number of stored entries fits the \<^verbatim>\<open>int\<close> it is
  cast to (fewer than \<open>2^31\<close> entries), the result is null for a negative \<open>num\<close> and for
  a \<open>num\<close> not below the number of entries, and the entry stored at \<open>num\<close> otherwise.
\<close>

theorem GetS3oTex_in_bounds:
  "GetS3oTex s3oTextures num \<noteq> Inl out_of_bounds \<and>
   (length s3oTextures < 2 ^ 31 \<longrightarrow>
      GetS3oTex s3oTextures num =
        (if sint num < 0 \<or> int (length s3oTextures) \<le> sint num then Inr None
         else Inr (Some (s3oTextures ! nat (sint num)))))"
proof
  show "GetS3oTex s3oTextures num \<noteq> Inl out_of_bounds"
    using sint_of_nat_le [of "length s3oTextures"]
    by (auto simp: GetS3oTex_def DoGetS3oTex_def vector_at_def)
next
  show "length s3oTextures < 2 ^ 31 \<longrightarrow>
      GetS3oTex s3oTextures num =
        (if sint num < 0 \<or> int (length s3oTextures) \<le> sint num then Inr None
         else Inr (Some (s3oTextures ! nat (sint num))))"
    by (auto simp: GetS3oTex_def DoGetS3oTex_def vector_at_def sint_of_nat_small)
qed

theorem GetS3oTex_in_bounds_witness:
  "GetS3oTex [10, 20, 30 :: nat] 1 = Inr (Some 20) \<and> GetS3oTex [10, 20, 30 :: nat] 3 = Inr None
   \<and> GetS3oTex [10, 20, 30 :: nat] (- 1) = Inr None"
  using GetS3oTex_in_bounds [of "[10, 20, 30 :: nat]" 1]
    GetS3oTex_in_bounds [of "[10, 20, 30 :: nat]" 3]
    GetS3oTex_in_bounds [of "[10, 20, 30 :: nat]" "- 1"]
  by simp

section \<open>Names, markers and the visit of a node\<close>

lemma NewPieceName_fresh: "map_of pm (NewPieceName pm base i) = None"
proof (induction pm base i rule: NewPieceName.induct)
  case (1 pm base i)
  then show ?case by (subst NewPieceName.simps) simp
qed

lemma UniquePieceName_fresh: "map_of pm (UniquePieceName pm nm) = None"
  by (simp add: UniquePieceName_def NewPieceName_fresh)

lemma SetPieceName_fresh:
  "name (SetPieceName piece a mdl pieceNode) \<noteq> ''$$root$$''
     \<Longrightarrow> map_of (pieceMap mdl) (name (SetPieceName piece a mdl pieceNode)) = None"
  by (auto simp: SetPieceName_def UniquePieceName_fresh split: if_splits)

lemma name_LoadPieceTransformations [simp]:
  "name (LoadPieceTransformations E piece a mdl pieceNode pieceTable) = name piece"
  by (cases "Decompose E (mTransformation pieceNode)")
     (simp add: LoadPieceTransformations_def Let_def)

lemma deref_append_new [simp]: "deref (h @ [x]) (length h) = x"
  by (simp add: deref_def)

lemma deref_update_same [simp]: "a < length h \<Longrightarrow> deref (h[a := x]) a = x"
  by (simp add: deref_def)

lemma deref_update_other [simp]: "b \<noteq> a \<Longrightarrow> deref (h[a := x]) b = deref h b"
  by (simp add: deref_def)

lemma store_simps [simp]:
  "model (store a p st) = model st"
  "errlog (store a p st) = errlog st"
  "heap (store a p st) = (heap st)[a := Some p]"
  by (simp_all add: store_def)

lemma LoadPiece_begin_facts:
  assumes "LoadPiece_begin E modelTable st anc pieceNode = (a, pieceTable, piece, st0)"
  shows "a = length (heap st)"
    and "heap st0 = heap st @ [Some piece]"
    and "errlog st0 = errlog st"
    and "model st0 = (model st)\<lparr>numPieces := numPieces (model st) + 1,
            rootPiece := (if anc = [] then Some a else rootPiece (model st))\<rparr>"
    and "name piece \<noteq> ''$$root$$'' \<Longrightarrow> map_of (pieceMap (model st)) (name piece) = None"
    and "pieceTable = pieces modelTable (name piece)"
proof -
  define m3 where "m3 = (model st)\<lparr>numPieces := numPieces (model st) + 1,
            rootPiece := (if anc = [] then Some (length (heap st)) else rootPiece (model st))\<rparr>"
  define p1 where "p1 = SetPieceName (new_SAssPiece E) (length (heap st)) m3 pieceNode"
  have a: "a = length (heap st)"
    and pt: "pieceTable = pieces modelTable (name p1)"
    and piece: "piece = LoadPieceTransformations E p1 a m3 pieceNode pieceTable"
    and st0: "st0 = store a piece
        (st\<lparr>model := m3, heap := heap st @ [Some (new_SAssPiece E)]\<rparr>)"
    using assms by (auto simp: LoadPiece_begin_def Let_def m3_def p1_def)
  show "a = length (heap st)" by (rule a)
  show "heap st0 = heap st @ [Some piece]" by (simp add: st0 a)
  show "errlog st0 = errlog st" by (simp add: st0)
  show "model st0 = (model st)\<lparr>numPieces := numPieces (model st) + 1,
            rootPiece := (if anc = [] then Some a else rootPiece (model st))\<rparr>"
    by (simp add: st0 m3_def a)
  show "pieceTable = pieces modelTable (name piece)" by (simp add: pt piece)
  show "map_of (pieceMap (model st)) (name piece) = None" if "name piece \<noteq> ''$$root$$''"
  proof -
    have "map_of (pieceMap m3) (name p1) = None"
      using that unfolding p1_def piece by (intro SetPieceName_fresh) (simp add: p1_def)
    then show ?thesis by (simp add: piece m3_def)
  qed
qed



lemma LoadPiece_marker:
  assumes "LoadPiece_begin E modelTable st anc pieceNode = (a, pieceTable, piece, st0)"
    and "SetModelRadiusAndHeight E st0 a piece pieceTable = (True, st')"
  shows "LoadPiece E modelTable st anc pieceNode = Inr (None, st')"
  using assms by (cases pieceNode) (simp add: LoadPiece_node_def)

text \<open>
  The piece map across the load. The visit of a node adds one address to the store and
  changes no other; a piece that is no marker keeps its name up to its entry in the map,
  which is made after the visit of its children; the linking pass and the bounds pass
  change neither the map nor the name or the liveness of a piece. So after \<^verbatim>\<open>Load\<close> no key
  of the map is the name of a marker, and every entry holds a live piece named by its key
  (\<open>Load_pieceMap_named\<close>).
\<close>

lemma pieceMap_insert_set: "set (pieceMap_insert k v m) \<subseteq> insert (k, v) (set m)"
  by (induction m) (auto split: if_splits)

lemma name_LoadPieceGeometry [simp]: "name (LoadPieceGeometry p nd) = name p"
proof -
  have 1: "name (foldl AddVertex q vs) = name q" for q :: "('a, 'b) SAssPiece" and vs
    by (induction vs arbitrary: q) (simp_all add: AddVertex_def)
  have 2: "name (foldl (\<lambda>p mesh. foldl AddVertex p mesh) q ms) = name q"
    for q :: "('a, 'b) SAssPiece" and ms
    by (induction ms arbitrary: q) (simp_all add: 1)
  show ?thesis by (simp add: LoadPieceGeometry_def Let_def 2)
qed

lemma name_SetPieceParentName:
  "SetPieceParentName p st anc pieceTable = Inr p' \<Longrightarrow> name p' = name p"
  by (auto simp: SetPieceParentName_def split: if_splits list.splits option.splits)

lemma heap_extends_refl [simp]: "heap_extends h h"
  by (simp add: heap_extends_def)

lemma heap_extends_trans: "heap_extends h h' \<Longrightarrow> heap_extends h' h'' \<Longrightarrow> heap_extends h h''"
  by (auto simp: heap_extends_def)

lemma SetModelRadiusAndHeight_cases:
  assumes "SetModelRadiusAndHeight E st3 a p2 pieceTable = (c, st4)"
  shows "(c \<and> (name p2 = ''SpringHeight'' \<or> name p2 = ''SpringRadius'')
            \<and> heap st4 = (heap st3)[a := None]
            \<and> pieceMap (model st4) = pieceMap (model st3))
         \<or> (\<not> c \<and> name p2 \<noteq> ''SpringHeight'' \<and> name p2 \<noteq> ''SpringRadius'' \<and> st4 = st3)"
  using assms by (auto simp: SetModelRadiusAndHeight_def Let_def split: if_splits)

lemma LoadPiece_node_frame:
  assumes "LoadPiece_node E modelTable st anc pieceNode = Inr (r, st1)"
  shows "heap_extends (heap st) (heap st1)"
    and "pieceMap (model st1) = pieceMap (model st)"
    and "length (heap st1) = Suc (length (heap st))"
    and "\<And>a piece. r = Some (a, piece) \<Longrightarrow>
           a = length (heap st) \<and> deref (heap st1) a = Some piece
           \<and> name piece \<noteq> ''SpringHeight'' \<and> name piece \<noteq> ''SpringRadius''"
proof -
  obtain a pieceTable p2 st3 where
    b: "LoadPiece_begin E modelTable st anc pieceNode = (a, pieceTable, p2, st3)"
    by (metis prod_cases4)
  note f = LoadPiece_begin_facts [OF b]
  obtain c st4 where s: "SetModelRadiusAndHeight E st3 a p2 pieceTable = (c, st4)"
    by (metis surj_pair)
  have pm3: "pieceMap (model st3) = pieceMap (model st)"
    by (simp add: f(4))
  have all: "heap_extends (heap st) (heap st1)
      \<and> pieceMap (model st1) = pieceMap (model st)
      \<and> length (heap st1) = Suc (length (heap st))
      \<and> (\<forall>a' piece. r = Some (a', piece) \<longrightarrow>
           a' = length (heap st) \<and> deref (heap st1) a' = Some piece
           \<and> name piece \<noteq> ''SpringHeight'' \<and> name piece \<noteq> ''SpringRadius'')"
  proof (cases c)
    case True
    with SetModelRadiusAndHeight_cases [OF s]
    have h4: "heap st4 = (heap st3)[a := None]"
      and pm4: "pieceMap (model st4) = pieceMap (model st3)"
      by auto
    from assms True s have r: "r = None" and st1: "st1 = st4"
      by (simp_all add: LoadPiece_node_def b)
    have h1: "heap st1 = heap st @ [None]"
      by (simp add: st1 h4 f(1,2))
    have m1: "pieceMap (model st1) = pieceMap (model st)"
      by (simp add: st1 pm4 pm3)
    show ?thesis
      by (simp add: r h1 m1 heap_extends_def deref_def nth_append)
  next
    case False
    with SetModelRadiusAndHeight_cases [OF s]
    have n: "name p2 \<noteq> ''SpringHeight''" "name p2 \<noteq> ''SpringRadius''" and st4: "st4 = st3"
      by auto
    from assms False s obtain p4 where
      p4: "SetPieceParentName (LoadPieceGeometry p2 pieceNode)
             (store a (LoadPieceGeometry p2 pieceNode) st4) anc pieceTable = Inr p4"
      and r: "r = Some (a, p4)" and st1: "st1 = store a p4 st4"
      by (auto simp: LoadPiece_node_def b Let_def split: sum.splits)
    have np: "name p4 = name p2"
      using name_SetPieceParentName [OF p4] by simp
    have h1: "heap st1 = heap st @ [Some p4]"
      by (simp add: st1 st4 f(1,2))
    have m1: "pieceMap (model st1) = pieceMap (model st)"
      by (simp add: st1 st4 pm3)
    show ?thesis
      using n by (simp add: r h1 m1 np f(1) heap_extends_def deref_def nth_append)
  qed
  from all show "heap_extends (heap st) (heap st1)"
    and "pieceMap (model st1) = pieceMap (model st)"
    and "length (heap st1) = Suc (length (heap st))"
    by simp_all
  from all show "a' = length (heap st) \<and> deref (heap st1) a' = Some piece
           \<and> name piece \<noteq> ''SpringHeight'' \<and> name piece \<noteq> ''SpringRadius''"
    if "r = Some (a', piece)" for a' piece
    using that by blast
qed

lemma pieceMap_named_extends:
  assumes "pieceMap_named st" and "heap_extends (heap st) (heap st')"
    and "pieceMap (model st') = pieceMap (model st)"
  shows "pieceMap_named st'"
  unfolding pieceMap_named_def
proof (clarify)
  fix k b assume kb: "(k, b) \<in> set (pieceMap (model st'))"
  with assms(1,3) have 1: "k \<noteq> ''SpringHeight''" "k \<noteq> ''SpringRadius''"
    and 2: "map_option name (deref (heap st) b) = Some k"
    by (auto simp: pieceMap_named_def)
  from 2 have "b < length (heap st)"
    by (auto simp: deref_def split: if_splits)
  with assms(2) have "deref (heap st') b = deref (heap st) b"
    by (simp add: heap_extends_def)
  with 1 2 show "k \<noteq> ''SpringHeight'' \<and> k \<noteq> ''SpringRadius''
        \<and> map_option name (deref (heap st') b) = Some k"
    by simp
qed

lemma pieceMap_named_insert:
  assumes "pieceMap_named st" and "map_option name (deref (heap st) a) = Some k"
    and "k \<noteq> ''SpringHeight''" and "k \<noteq> ''SpringRadius''"
  shows "pieceMap_named (st\<lparr>model := (model st)\<lparr>pieceMap :=
           pieceMap_insert k a (pieceMap (model st))\<rparr>\<rparr>)"
  using assms pieceMap_insert_set [of k a "pieceMap (model st)"]
  by (auto simp: pieceMap_named_def)

lemma LoadPiece_traversal:
  fixes E :: "('f::{ord,zero,one}, 't, 'q, 'm) collab"
  shows "\<forall>r st'. LoadPiece E modelTable st anc nd = Inr (r, st')
           \<longrightarrow> heap_extends (heap st) (heap st') \<and> (pieceMap_named st \<longrightarrow> pieceMap_named st')"
    and "\<forall>st'. LoadPiece_children E modelTable st anc cs = Inr st'
           \<longrightarrow> heap_extends (heap st) (heap st') \<and> (pieceMap_named st \<longrightarrow> pieceMap_named st')"
proof (induction E modelTable st anc nd and E modelTable st anc cs
    rule: LoadPiece_LoadPiece_children.induct)
  case (1 E modelTable st anc nm tr ms cs)
  show ?case
  proof (intro allI impI)
    fix r st'
    assume L: "LoadPiece E modelTable st anc (aiNode nm tr ms cs) = Inr (r, st')"
    then obtain r1 st1 where
      n: "LoadPiece_node E modelTable st anc (aiNode nm tr ms cs) = Inr (r1, st1)"
      by (auto split: sum.splits)
    note f = LoadPiece_node_frame [OF n]
    show "heap_extends (heap st) (heap st') \<and> (pieceMap_named st \<longrightarrow> pieceMap_named st')"
    proof (cases r1)
      case None
      with L n have "st' = st1" by simp
      with f(1,2) show ?thesis
        by (auto intro: pieceMap_named_extends)
    next
      case (Some ap)
      obtain a piece where ap: "ap = (a, piece)" by (cases ap)
      from L n Some ap obtain st2 where
        c: "LoadPiece_children E modelTable st1 (nm # anc) cs = Inr st2"
        and st': "st' = st2\<lparr>model := (model st2)\<lparr>pieceMap :=
                      pieceMap_insert (name piece) a (pieceMap (model st2))\<rparr>\<rparr>"
        by (auto split: sum.splits)
      from 1 n Some ap c
      have ih: "heap_extends (heap st1) (heap st2)"
        "pieceMap_named st1 \<longrightarrow> pieceMap_named st2"
        by auto
      from f(4) Some ap have a: "a = length (heap st)"
        and d: "deref (heap st1) a = Some piece"
        and nn: "name piece \<noteq> ''SpringHeight''" "name piece \<noteq> ''SpringRadius''"
        by auto
      have "a < length (heap st1)" by (simp add: a f(3))
      with ih(1) d have d2: "deref (heap st2) a = Some piece"
        by (simp add: heap_extends_def)
      have e: "heap_extends (heap st) (heap st')"
        using heap_extends_trans [OF f(1) ih(1)] by (simp add: st')
      have "pieceMap_named st'" if "pieceMap_named st"
      proof -
        have "pieceMap_named st1"
          by (rule pieceMap_named_extends [OF that f(1,2)])
        with ih(2) have "pieceMap_named st2" by simp
        then show ?thesis
          unfolding st' using nn d2 by (intro pieceMap_named_insert) simp_all
      qed
      with e show ?thesis by simp
    qed
  qed
next
  case (2 E modelTable st anc)
  show ?case by simp
next
  case (3 E modelTable st anc c cs)
  show ?case
  proof (intro allI impI)
    fix st'
    assume L: "LoadPiece_children E modelTable st anc (c # cs) = Inr st'"
    then obtain r1 st1 where
      n: "LoadPiece E modelTable st anc c = Inr (r1, st1)"
      and c: "LoadPiece_children E modelTable st1 anc cs = Inr st'"
      by (auto split: sum.splits)
    from 3(1) n have 1: "heap_extends (heap st) (heap st1)"
      "pieceMap_named st \<longrightarrow> pieceMap_named st1"
      by auto
    from 3(2) n c have 2: "heap_extends (heap st1) (heap st')"
      "pieceMap_named st1 \<longrightarrow> pieceMap_named st'"
      by auto
    from 1 2 show "heap_extends (heap st) (heap st') \<and> (pieceMap_named st \<longrightarrow> pieceMap_named st')"
      by (auto intro: heap_extends_trans)
  qed
qed

lemma same_names_refl [simp]: "same_names st st"
  by (simp add: same_names_def)

lemma same_names_trans: "same_names st st' \<Longrightarrow> same_names st' st'' \<Longrightarrow> same_names st st''"
  by (simp add: same_names_def)

lemma pieceMap_named_same_names: "pieceMap_named st \<Longrightarrow> same_names st st' \<Longrightarrow> pieceMap_named st'"
  by (simp add: pieceMap_named_def same_names_def)

lemma same_names_store:
  assumes "deref (heap st) a = Some p" and "name p' = name p"
  shows "same_names st (store a p' st)"
proof -
  from assms(1) have a: "a < length (heap st)"
    by (auto simp: deref_def split: if_splits)
  have "map_option name (deref ((heap st)[a := Some p']) b) = map_option name (deref (heap st) b)"
    for b
    using assms a by (cases "b = a") simp_all
  then show ?thesis by (simp add: same_names_def)
qed

lemma same_names_errlog [simp]: "same_names st (st'\<lparr>errlog := l\<rparr>) = same_names st st'"
  by (simp add: same_names_def)

lemma AddChild_same_names: "AddChild pa a st = Inr st' \<Longrightarrow> same_names st st'"
  by (auto simp: AddChild_def split: option.splits intro!: same_names_store)

lemma LinkPiece_same_names:
  assumes "LinkPiece st e = Inr st'"
  shows "same_names st st'"
proof (cases "Some (snd e) = rootPiece (model st)")
  case True
  with assms show ?thesis by (simp add: LinkPiece_def)
next
  case False
  with assms obtain piece where d: "deref (heap st) (snd e) = Some piece"
    by (auto simp: LinkPiece_def Let_def split: option.splits)
  have s: "same_names st (store (snd e) (piece\<lparr>parent := x\<rparr>) st)" for x
    by (rule same_names_store [OF d]) simp
  from assms False d show ?thesis
    by (auto simp: LinkPiece_def Let_def s split: option.splits if_splits
          dest!: AddChild_same_names intro: same_names_trans [OF s])
qed

lemma LinkPieces_same_names: "LinkPieces st es = Inr st' \<Longrightarrow> same_names st st'"
proof (induction es arbitrary: st)
  case Nil
  then show ?case by simp
next
  case (Cons e es)
  then show ?case
    by (auto split: sum.splits dest!: LinkPiece_same_names intro: same_names_trans)
qed

lemma CalculateModelDimensions_same_names:
  fixes E :: "('f::{ord,zero,plus}, 't, 'q, 'm) collab"
  shows "\<forall>st'. CalculateModelDimensions E n st a = Some (Inr st') \<longrightarrow> same_names st st'"
    and "\<forall>st'. CalculateModelDimensions_children E n st cs = Some (Inr st') \<longrightarrow> same_names st st'"
proof (induction E n st a and E n st cs
    rule: CalculateModelDimensions_CalculateModelDimensions_children.induct)
  case (1 E st a)
  show ?case by simp
next
  case (2 E n st a)
  show ?case
  proof (intro allI impI)
    fix st'
    assume L: "CalculateModelDimensions E (Suc n) st a = Some (Inr st')"
    then obtain piece where d: "deref (heap st) a = Some piece"
      by (auto split: option.splits)
    from L d obtain pg where pg: "(case parent piece of None \<Rightarrow> Some ZeroVector
             | Some pa \<Rightarrow> map_option goffset (deref (heap st) pa)) = Some pg"
      by (auto split: option.splits)
    define g where "g = vadd (Mul E (ComposeTransform E (bakedRotMatrix piece) ZeroVector
                                       ZeroVector (scales piece)) (offset piece)) pg"
    define m' where "m' = (model st)\<lparr>S3DModel.mins :=
        float3_min (vadd g (SAssPiece.mins piece)) (S3DModel.mins (model st)),
      S3DModel.maxs := float3_max (vadd g (SAssPiece.maxs piece)) (S3DModel.maxs (model st))\<rparr>"
    define st1 where "st1 = store a (piece\<lparr>goffset := g\<rparr>) (st\<lparr>model := m'\<rparr>)"
    from L d pg have c: "CalculateModelDimensions_children E n st1 (children piece) = Some (Inr st')"
      by (simp add: Let_def g_def m'_def st1_def)
    have "same_names (st\<lparr>model := m'\<rparr>) st1"
      unfolding st1_def by (rule same_names_store [of _ _ piece]) (simp_all add: d)
    then have 1: "same_names st st1"
      by (simp add: same_names_def m'_def)
    from 2 [OF d pg refl refl refl] c have "same_names st1 st'"
      by (simp add: m'_def st1_def g_def)
    with 1 show "same_names st st'" by (rule same_names_trans)
  qed
next
  case (3 E n st)
  show ?case by simp
next
  case (4 E n st c cs)
  show ?case
  proof (intro allI impI)
    fix st'
    assume L: "CalculateModelDimensions_children E n st (c # cs) = Some (Inr st')"
    then obtain st1 where 1: "CalculateModelDimensions E n st c = Some (Inr st1)"
      and 2: "CalculateModelDimensions_children E n st1 cs = Some (Inr st')"
      by (auto split: option.splits sum.splits)
    from 4(1) 1 have "same_names st st1" by simp
    moreover from 4(2) 1 2 have "same_names st1 st'" by auto
    ultimately show "same_names st st'" by (rule same_names_trans)
  qed
qed

lemma pieceMap_FinalizeModel [simp]: "pieceMap (FinalizeModel E modelTable m) = pieceMap m"
  by (simp add: FinalizeModel_def Let_def)

lemma Load_pieceMap_named:
  assumes "Load E modelTable (Some scene) = Some (Inr st')"
  shows "pieceMap_named st'"
proof -
  let ?st0 = "\<lparr>model = new_S3DModel E, heap = [], errlog = []\<rparr>"
  from assms obtain r st1 st2 where
    1: "LoadPiece E modelTable ?st0 [] scene = Inr (r, st1)"
    and 2: "BuildPieceHierarchy st1 = Inr st2"
    and 3: "CalculateModelProperties E modelTable (Suc (length (heap st2))) st2 = Some (Inr st')"
    by (auto simp: Load_def split: sum.splits)
  from 3 obtain rt st3 where
    4: "CalculateModelDimensions E (Suc (length (heap st2))) st2 rt = Some (Inr st3)"
    and 5: "st' = st3\<lparr>model := FinalizeModel E modelTable (model st3)\<rparr>"
    by (auto simp: CalculateModelProperties_def simp del: CalculateModelDimensions.simps
          split: option.splits sum.splits)
  have "pieceMap_named ?st0"
    by (simp add: pieceMap_named_def new_S3DModel_def)
  with LoadPiece_traversal(1) [of E modelTable ?st0 "[]" scene] 1
  have "pieceMap_named st1" by blast
  moreover from 2 have "same_names st1 st2"
    by (simp add: BuildPieceHierarchy_def LinkPieces_same_names)
  moreover from 4 CalculateModelDimensions_same_names(1) have "same_names st2 st3"
    by blast
  moreover have "same_names st3 st'"
    by (simp add: 5 same_names_def)
  ultimately show ?thesis
    by (blast intro: pieceMap_named_same_names)
qed

text \<open>
  C3. A node whose piece resolves to the name \<open>SpringHeight\<close>: the visit returns null;
  the model's height is the piece's resolved offset Y when the piece's table has no
  \<open>height\<close> key, and is unchanged otherwise; the piece counter, incremented at the start
  of the visit, is back at its value before the visit; the piece is released; the map is
  unchanged and \<^verbatim>\<open>FindPiece\<close> finds nothing under the name. And in the model that
  \<^verbatim>\<open>Load\<close> returns, for any scene: whatever \<^verbatim>\<open>FindPiece\<close> returns, under any name, is a live
  piece with that name, and the name is not \<open>SpringHeight\<close>; so no piece whose resolved name
  is \<open>SpringHeight\<close>, and no released piece, is in the final map.
\<close>

theorem SpringHeight_marker:
  fixes E :: "('f::{ord,zero,one,plus,times,abs}, 't, 'q, 'm) collab"
  assumes "LoadPiece_begin E modelTable st anc pieceNode = (a, pieceTable, piece, st0)"
    and "name piece = ''SpringHeight''"
  shows "\<exists>st'. LoadPiece E modelTable st anc pieceNode = Inr (None, st')
     \<and> height (model st') =
         (if KeyExists pieceTable ''height'' then height (model st) else fy (offset piece))
     \<and> numPieces (model st0) = numPieces (model st) + 1
     \<and> numPieces (model st') = numPieces (model st)
     \<and> deref (heap st0) a = Some piece
     \<and> deref (heap st') a = None
     \<and> pieceMap (model st') = pieceMap (model st)
     \<and> FindPiece (model st') ''SpringHeight'' = None
     \<and> (\<forall>scene st'' k b.
           Load E modelTable (Some scene) = Some (Inr st'') \<and> FindPiece (model st'') k = Some b
           \<longrightarrow> k \<noteq> ''SpringHeight''
               \<and> (\<exists>p. deref (heap st'') b = Some p \<and> name p = k \<and> name p \<noteq> ''SpringHeight''))"
proof -
  note f = LoadPiece_begin_facts [OF assms(1)]
  define st' where "st' = snd (SetModelRadiusAndHeight E st0 a piece pieceTable)"
  have r: "SetModelRadiusAndHeight E st0 a piece pieceTable = (True, st')"
    by (simp add: st'_def SetModelRadiusAndHeight_def assms(2) Let_def)
  have st': "st' = st0\<lparr>model := (if \<not> KeyExists pieceTable ''height''
                 then (model st0)\<lparr>height := fy (offset piece)\<rparr> else model st0)
                   \<lparr>numPieces := numPieces (model st0) - 1\<rparr>,
               heap := (heap st0)[a := None]\<rparr>"
    by (simp add: st'_def SetModelRadiusAndHeight_def assms(2) Let_def)
  have "LoadPiece E modelTable st anc pieceNode = Inr (None, st')"
    by (rule LoadPiece_marker [OF assms(1) r])
  moreover have "height (model st') =
         (if KeyExists pieceTable ''height'' then height (model st) else fy (offset piece))"
    by (simp add: st' f(4))
  moreover have "numPieces (model st0) = numPieces (model st) + 1"
    by (simp add: f(4))
  moreover have "numPieces (model st') = numPieces (model st)"
    by (simp add: st' f(4))
  moreover have "deref (heap st0) a = Some piece"
    by (simp add: f(1,2))
  moreover have "deref (heap st') a = None"
    by (simp add: st' f(1,2))
  moreover have pm: "pieceMap (model st') = pieceMap (model st)"
    by (simp add: st' f(4))
  moreover have "FindPiece (model st') ''SpringHeight'' = None"
    using f(5) by (simp add: FindPiece_def pm assms(2))
  moreover have "k \<noteq> ''SpringHeight''
      \<and> (\<exists>p. deref (heap st'') b = Some p \<and> name p = k \<and> name p \<noteq> ''SpringHeight'')"
    if "Load E modelTable (Some scene) = Some (Inr st'')" "FindPiece (model st'') k = Some b"
    for scene st'' k b
  proof -
    from that(2) have "(k, b) \<in> set (pieceMap (model st''))"
      by (simp add: FindPiece_def map_of_SomeD)
    with Load_pieceMap_named [OF that(1)] show ?thesis
      by (auto simp: pieceMap_named_def)
  qed
  ultimately show ?thesis by blast
qed

text \<open>
  C4. A node whose piece resolves to the name \<open>SpringRadius\<close>: when the piece's table has no
  \<open>midpos\<close> key, the model's \<open>relMidPos\<close> is the piece's offset under the piece's own
  scale-and-rotation matrix (composed with a zero translation); when it has no \<open>radius\<close>
  key, the model's radius is the X component of the piece's scales; the piece is consumed:
  the counter is back at its value, the piece is released, the map is unchanged and
  \<^verbatim>\<open>FindPiece\<close> finds nothing under the name. And in the model that \<^verbatim>\<open>Load\<close> returns, for
  any scene: whatever \<^verbatim>\<open>FindPiece\<close> returns, under any name, is a live piece with that name,
  and the name is not \<open>SpringRadius\<close>; so no piece whose resolved name is \<open>SpringRadius\<close>, and
  no released piece, is in the final map.
\<close>

theorem SpringRadius_marker:
  fixes E :: "('f::{ord,zero,one,plus,times,abs}, 't, 'q, 'm) collab"
  assumes "LoadPiece_begin E modelTable st anc pieceNode = (a, pieceTable, piece, st0)"
    and "name piece = ''SpringRadius''"
  shows "\<exists>st'. LoadPiece E modelTable st anc pieceNode = Inr (None, st')
     \<and> relMidPos (model st') =
         (if KeyExists pieceTable ''midpos'' then relMidPos (model st)
          else Mul E (ComposeTransform E (bakedRotMatrix piece) ZeroVector ZeroVector
                 (scales piece)) (offset piece))
     \<and> radius (model st') =
         (if KeyExists pieceTable ''radius'' then radius (model st) else fx (scales piece))
     \<and> numPieces (model st0) = numPieces (model st) + 1
     \<and> numPieces (model st') = numPieces (model st)
     \<and> deref (heap st0) a = Some piece
     \<and> deref (heap st') a = None
     \<and> pieceMap (model st') = pieceMap (model st)
     \<and> FindPiece (model st') ''SpringRadius'' = None
     \<and> (\<forall>scene st'' k b.
           Load E modelTable (Some scene) = Some (Inr st'') \<and> FindPiece (model st'') k = Some b
           \<longrightarrow> k \<noteq> ''SpringRadius''
               \<and> (\<exists>p. deref (heap st'') b = Some p \<and> name p = k \<and> name p \<noteq> ''SpringRadius''))"
proof -
  note f = LoadPiece_begin_facts [OF assms(1)]
  define st' where "st' = snd (SetModelRadiusAndHeight E st0 a piece pieceTable)"
  have r: "SetModelRadiusAndHeight E st0 a piece pieceTable = (True, st')"
    by (simp add: st'_def SetModelRadiusAndHeight_def assms(2) Let_def)
  have m: "model st' =
      (model st)\<lparr>rootPiece := (if anc = [] then Some a else rootPiece (model st)),
        relMidPos := (if KeyExists pieceTable ''midpos'' then relMidPos (model st)
          else Mul E (ComposeTransform E (bakedRotMatrix piece) ZeroVector ZeroVector
                 (scales piece)) (offset piece)),
        radius := (if KeyExists pieceTable ''radius'' then radius (model st)
          else fx (scales piece))\<rparr>"
    and h: "heap st' = (heap st0)[a := None]"
    by (simp_all add: st'_def SetModelRadiusAndHeight_def assms(2) Let_def f(4))
  have "LoadPiece E modelTable st anc pieceNode = Inr (None, st')"
    by (rule LoadPiece_marker [OF assms(1) r])
  moreover have "relMidPos (model st') =
         (if KeyExists pieceTable ''midpos'' then relMidPos (model st)
          else Mul E (ComposeTransform E (bakedRotMatrix piece) ZeroVector ZeroVector
                 (scales piece)) (offset piece))"
    by (simp add: m)
  moreover have "radius (model st') =
         (if KeyExists pieceTable ''radius'' then radius (model st) else fx (scales piece))"
    by (simp add: m)
  moreover have "numPieces (model st0) = numPieces (model st) + 1"
    by (simp add: f(4))
  moreover have "numPieces (model st') = numPieces (model st)"
    by (simp add: m)
  moreover have "deref (heap st0) a = Some piece"
    by (simp add: f(1,2))
  moreover have "deref (heap st') a = None"
    by (simp add: h f(1,2))
  moreover have pm: "pieceMap (model st') = pieceMap (model st)"
    by (simp add: m)
  moreover have "FindPiece (model st') ''SpringRadius'' = None"
    using f(5) by (simp add: FindPiece_def pm assms(2))
  moreover have "k \<noteq> ''SpringRadius''
      \<and> (\<exists>p. deref (heap st'') b = Some p \<and> name p = k \<and> name p \<noteq> ''SpringRadius'')"
    if "Load E modelTable (Some scene) = Some (Inr st'')" "FindPiece (model st'') k = Some b"
    for scene st'' k b
  proof -
    from that(2) have "(k, b) \<in> set (pieceMap (model st''))"
      by (simp add: FindPiece_def map_of_SomeD)
    with Load_pieceMap_named [OF that(1)] show ?thesis
      by (auto simp: pieceMap_named_def)
  qed
  ultimately show ?thesis by blast
qed


lemma markerScene_loaded:
  "case Load testCollab emptyMeta (Some markerScene) of
     Some (Inr s) \<Rightarrow>
       pieceMap (model s) = [(''R'', 0), (''Turret'', 3)] \<and> numPieces (model s) = 2
       \<and> deref (heap s) 1 = None \<and> deref (heap s) 2 = None \<and> length (heap s) = 4
       \<and> map_option name (deref (heap s) 3) = Some ''Turret''
   | _ \<Rightarrow> False"
  by code_simp

theorem SpringHeight_marker_witness:
  "(\<exists>st'. LoadPiece testCollab emptyMeta rootVisited [''R''] heightNode = Inr (None, st')
     \<and> height (model st') = 42 \<and> numPieces (model st') = 1 \<and> deref (heap st') 1 = None
     \<and> pieceMap (model st') = [] \<and> FindPiece (model st') ''SpringHeight'' = None)
   \<and> (\<exists>s. Load testCollab emptyMeta (Some markerScene) = Some (Inr s)
        \<and> FindPiece (model s) ''SpringHeight'' = None
        \<and> FindPiece (model s) ''Turret'' = Some 3
        \<and> map_option name (deref (heap s) 3) = Some ''Turret''
        \<and> deref (heap s) 1 = None
        \<and> numPieces (model s) = 2)"
proof -
  let ?X = "LoadPiece_begin testCollab emptyMeta rootVisited [''R''] heightNode"
  have b: "?X = (fst ?X, fst (snd ?X), fst (snd (snd ?X)), snd (snd (snd ?X)))"
    by simp
  have n: "name (fst (snd (snd ?X))) = ''SpringHeight''"
    by code_simp
  have e: "fst ?X = 1" "KeyExists (fst (snd ?X)) ''height'' = False"
    "fy (offset (fst (snd (snd ?X)))) = 42" "numPieces (model rootVisited) = 1"
    "pieceMap (model rootVisited) = []"
    by code_simp+
  note t = SpringHeight_marker [OF b n]
  from t have 1: "\<exists>st'. LoadPiece testCollab emptyMeta rootVisited [''R''] heightNode
       = Inr (None, st')
     \<and> height (model st') = 42 \<and> numPieces (model st') = 1 \<and> deref (heap st') 1 = None
     \<and> pieceMap (model st') = [] \<and> FindPiece (model st') ''SpringHeight'' = None"
    unfolding e by auto
  from t have 2: "Load testCollab emptyMeta (Some scene) = Some (Inr s)
      \<Longrightarrow> FindPiece (model s) k = Some b' \<Longrightarrow> k \<noteq> ''SpringHeight''
        \<and> (\<exists>p. deref (heap s) b' = Some p \<and> name p = k \<and> name p \<noteq> ''SpringHeight'')"
    for scene s k b'
    by blast
  from markerScene_loaded obtain s where
    3: "Load testCollab emptyMeta (Some markerScene) = Some (Inr s)"
    and 4: "pieceMap (model s) = [(''R'', 0), (''Turret'', 3)]" "numPieces (model s) = 2"
      "deref (heap s) 1 = None"
    by (auto split: option.splits sum.splits)
  have 5: "FindPiece (model s) ''SpringHeight'' = None"
    using 2 [OF 3, of "''SpringHeight''"] by (cases "FindPiece (model s) ''SpringHeight''") auto
  have 6: "FindPiece (model s) ''Turret'' = Some 3"
    by (simp add: FindPiece_def 4)
  from 2 [OF 3 6] have 7: "map_option name (deref (heap s) 3) = Some ''Turret''"
    by auto
  from 1 3 4 5 6 7 show ?thesis by blast
qed

theorem SpringRadius_marker_witness:
  "(\<exists>st'. LoadPiece testCollab emptyMeta rootVisited [''R''] radiusNode = Inr (None, st')
     \<and> relMidPos (model st') = vec 3 6 9 \<and> radius (model st') = 3
     \<and> numPieces (model st') = 1 \<and> deref (heap st') 1 = None
     \<and> pieceMap (model st') = [] \<and> FindPiece (model st') ''SpringRadius'' = None)
   \<and> (\<exists>s. Load testCollab emptyMeta (Some markerScene) = Some (Inr s)
        \<and> FindPiece (model s) ''SpringRadius'' = None
        \<and> FindPiece (model s) ''R'' = Some 0
        \<and> map_option name (deref (heap s) 0) = Some ''R''
        \<and> deref (heap s) 2 = None
        \<and> numPieces (model s) = 2)"
proof -
  let ?X = "LoadPiece_begin testCollab emptyMeta rootVisited [''R''] radiusNode"
  have b: "?X = (fst ?X, fst (snd ?X), fst (snd (snd ?X)), snd (snd (snd ?X)))"
    by simp
  have n: "name (fst (snd (snd ?X))) = ''SpringRadius''"
    by code_simp
  have e: "fst ?X = 1" "KeyExists (fst (snd ?X)) ''midpos'' = False"
    "KeyExists (fst (snd ?X)) ''radius'' = False"
    "Mul testCollab (ComposeTransform testCollab (bakedRotMatrix (fst (snd (snd ?X))))
       ZeroVector ZeroVector (scales (fst (snd (snd ?X))))) (offset (fst (snd (snd ?X))))
     = vec 3 6 9"
    "fx (scales (fst (snd (snd ?X)))) = 3" "numPieces (model rootVisited) = 1"
    "pieceMap (model rootVisited) = []"
    by code_simp+
  note t = SpringRadius_marker [OF b n]
  from t have 1: "\<exists>st'. LoadPiece testCollab emptyMeta rootVisited [''R''] radiusNode
       = Inr (None, st')
     \<and> relMidPos (model st') = vec 3 6 9 \<and> radius (model st') = 3
     \<and> numPieces (model st') = 1 \<and> deref (heap st') 1 = None
     \<and> pieceMap (model st') = [] \<and> FindPiece (model st') ''SpringRadius'' = None"
    unfolding e by auto
  from t have 2: "Load testCollab emptyMeta (Some scene) = Some (Inr s)
      \<Longrightarrow> FindPiece (model s) k = Some b' \<Longrightarrow> k \<noteq> ''SpringRadius''
        \<and> (\<exists>p. deref (heap s) b' = Some p \<and> name p = k \<and> name p \<noteq> ''SpringRadius'')"
    for scene s k b'
    by blast
  from markerScene_loaded obtain s where
    3: "Load testCollab emptyMeta (Some markerScene) = Some (Inr s)"
    and 4: "pieceMap (model s) = [(''R'', 0), (''Turret'', 3)]" "numPieces (model s) = 2"
      "deref (heap s) 2 = None"
    by (auto split: option.splits sum.splits)
  have 5: "FindPiece (model s) ''SpringRadius'' = None"
    using 2 [OF 3, of "''SpringRadius''"] by (cases "FindPiece (model s) ''SpringRadius''") auto
  have 6: "FindPiece (model s) ''R'' = Some 0"
    by (simp add: FindPiece_def 4)
  from 2 [OF 3 6] have 7: "map_option name (deref (heap s) 0) = Some ''R''"
    by auto
  from 1 3 4 5 6 7 show ?thesis by blast
qed


text \<open>
  The scalars that the markers store are those of the visit. \<^verbatim>\<open>CalculateModelProperties\<close>
  then derives the height, the radius and the Y component of \<open>relMidPos\<close> from the bounds
  of the model (unless the model's table has the keys), so in the model that \<^verbatim>\<open>Load\<close>
  returns for \<open>markerScene\<close> the height is the upper Y bound 3, not the 42 of the height
  marker, and of the \<open>relMidPos\<close> that the radius marker stored the X and Z components are
  left.
\<close>

lemma markerScene_properties:
  "case Load testCollab emptyMeta (Some markerScene) of
     Some (Inr s) \<Rightarrow>
       height (model s) = 3 \<and> radius (model s) = 5 \<and> relMidPos (model s) = vec 3 2 9
       \<and> S3DModel.mins (model s) = vec (- 1) 1 (- 1) \<and> S3DModel.maxs (model s) = vec 1 3 1
   | _ \<Rightarrow> False"
  by code_simp


section \<open>The scale of a piece\<close>

text \<open>
  C9. The scales of a piece after \<^verbatim>\<open>LoadPieceTransformations\<close>: with \<open>s\<close> the scale after
  the override keys \<open>scale\<close>, \<open>scalex\<close>, \<open>scaley\<close>, \<open>scalez\<close> (each falling back to the
  decomposed scale), the scales are \<open>s\<close> when its three components are equal and \<open>s\<close>
  with Y and Z set to X otherwise; in both cases Y and Z equal X, and X is that of \<open>s\<close>.
\<close>

theorem LoadPieceTransformations_isotropic:
  "scales (LoadPieceTransformations E piece a mdl pieceNode pieceTable) =
     (let s = MetadataScaling pieceTable (fst (Decompose E (mTransformation pieceNode)))
      in if fx s = fy s \<and> fy s = fz s then s else s\<lparr>fy := fx s, fz := fx s\<rparr>)
   \<and> fy (scales (LoadPieceTransformations E piece a mdl pieceNode pieceTable))
       = fx (scales (LoadPieceTransformations E piece a mdl pieceNode pieceTable))
   \<and> fz (scales (LoadPieceTransformations E piece a mdl pieceNode pieceTable))
       = fx (scales (LoadPieceTransformations E piece a mdl pieceNode pieceTable))
   \<and> fx (scales (LoadPieceTransformations E piece a mdl pieceNode pieceTable))
       = fx (MetadataScaling pieceTable (fst (Decompose E (mTransformation pieceNode))))"
  by (cases "Decompose E (mTransformation pieceNode)")
     (auto simp: LoadPieceTransformations_def Let_def)

theorem LoadPieceTransformations_isotropic_witness:
  "MetadataScaling emptyTable (fst (Decompose testCollab (mTransformation radiusNode)))
     = vec 3 4 5
   \<and> scales (LoadPieceTransformations testCollab (new_SAssPiece testCollab) 1
        (model rootVisited) radiusNode emptyTable) = vec 3 3 3"
proof -
  have e: "MetadataScaling emptyTable (fst (Decompose testCollab (mTransformation radiusNode)))
     = vec 3 4 5"
    by code_simp
  from LoadPieceTransformations_isotropic [of testCollab "new_SAssPiece testCollab" 1
      "model rootVisited" radiusNode emptyTable]
  show ?thesis unfolding e by (simp add: vec_def)
qed

section \<open>The linking pass\<close>

lemma Linked_simps [simp]:
  "Linked st [] = []"
  "Linked st (e # es) =
     (if Some (snd e) \<noteq> rootPiece (model st) then snd e # Linked st es else Linked st es)"
  by (simp_all add: Linked_def)

lemma LinkPiece_closed_form:
  assumes "deref (heap st) (snd e) \<noteq> None"
    and "\<forall>nm a. FindPiece (model st) nm = Some a \<longrightarrow> deref (heap st) a \<noteq> None"
    and "\<forall>r. rootPiece (model st) = Some r \<longrightarrow> deref (heap st) r \<noteq> None"
  shows "\<exists>st'. LinkPiece st e = Inr st' \<and> model st' = model st
     \<and> errlog st' = errlog st @ LinkLog st [e]
     \<and> (\<forall>b. deref (heap st') b = map_option (LinkedPiece st [e] b) (deref (heap st) b))"
proof (cases "Some (snd e) = rootPiece (model st)")
  case True
  then have "LinkPiece st e = Inr st"
    by (simp add: LinkPiece_def)
  moreover have "map_option (LinkedPiece st [e] b) (deref (heap st) b) = deref (heap st) b" for b
    using True by (cases "deref (heap st) b") (simp_all add: LinkedPiece_def NewChildren_def)
  ultimately show ?thesis using True by (simp add: LinkLog_def)
next
  case False
  obtain p where p: "deref (heap st) (snd e) = Some p"
    using assms(1) by auto
  have len: "snd e < length (heap st)"
    using p by (auto simp: deref_def split: if_splits)
  show ?thesis
  proof (cases "LinkTarget st p")
    case None
    define st' where "st' = (store (snd e) (p\<lparr>parent := None\<rparr>) st)
          \<lparr>errlog := errlog st @ LinkMessages st (snd e)\<rparr>"
    have "LinkPiece st e = Inr st'"
      using False p None
      by (auto simp: LinkPiece_def LinkTarget_def st'_def LinkMessages_def split: if_splits)
    moreover have "model st' = model st" by (simp add: st'_def store_def)
    moreover have "errlog st' = errlog st @ LinkLog st [e]"
      using False by (simp add: st'_def LinkLog_def)
    moreover have "deref (heap st') b = map_option (LinkedPiece st [e] b) (deref (heap st) b)"
      for b
    proof (cases "b = snd e")
      case True
      then show ?thesis
        using False p None len
        by (simp add: st'_def store_def deref_def LinkedPiece_def NewChildren_def)
    next
      case b: False
      then show ?thesis
        using False p None
        by (cases "deref (heap st) b")
           (auto simp: st'_def LinkedPiece_def NewChildren_def)
    qed
    ultimately show ?thesis by blast
  next
    case (Some pa)
    have live: "deref (heap st) pa \<noteq> None"
      using Some assms(2,3) by (auto simp: LinkTarget_def split: if_splits)
    then have lenpa: "pa < length (heap st)"
      by (auto simp: deref_def split: if_splits)
    define st1 where "st1 = store (snd e) (p\<lparr>parent := Some pa\<rparr>) st"
    have "deref (heap st1) pa \<noteq> None"
      using live len by (cases "pa = snd e") (simp_all add: st1_def)
    then obtain pp where pp: "deref (heap st1) pa = Some pp"
      by auto
    define st' where "st' = store pa (pp\<lparr>children := children pp @ [snd e]\<rparr>) st1"
    have "LinkPiece st e = Inr st'"
      using False p Some pp
      by (auto simp: LinkPiece_def LinkTarget_def AddChild_def st'_def st1_def Let_def
          split: if_splits)
    moreover have "model st' = model st" by (simp add: st'_def st1_def store_def)
    moreover have "errlog st' = errlog st @ LinkLog st [e]"
      using False p Some by (simp add: st'_def st1_def store_def LinkLog_def LinkMessages_def)
    moreover have "deref (heap st') b = map_option (LinkedPiece st [e] b) (deref (heap st) b)"
      for b
    proof -
      have nc: "NewChildren st [e] c = (if c = pa then [snd e] else [])" for c
        using False p Some by (auto simp: NewChildren_def)
      show ?thesis
      proof (cases "b = pa")
        case True
        show ?thesis
        proof (cases "pa = snd e")
          case True
          with pp p len have "pp = p\<lparr>parent := Some pa\<rparr>"
            by (simp add: st1_def store_def deref_def)
          with True \<open>b = pa\<close> show ?thesis
            using False p Some len
            by (simp add: st'_def st1_def store_def deref_def LinkedPiece_def nc)
        next
          case ne: False
          with pp have "deref (heap st) pa = Some pp"
            by (simp add: st1_def store_def deref_def split: if_splits)
          with True ne show ?thesis
            using False lenpa
            by (simp add: st'_def st1_def store_def deref_def LinkedPiece_def nc)
        qed
      next
        case nb: False
        show ?thesis
        proof (cases "b = snd e")
          case True
          with nb show ?thesis
            using False p Some len
            by (simp add: st'_def st1_def store_def deref_def LinkedPiece_def nc)
        next
          case b: False
          with nb show ?thesis
            using False
            by (cases "deref (heap st) b")
               (auto simp: st'_def st1_def LinkedPiece_def nc)
        qed
      qed
    qed
    ultimately show ?thesis by blast
  qed
qed


lemma LinkTarget_LinkedPiece [simp]:
  "LinkTarget st' (LinkedPiece st es b p) = LinkTarget st' p"
  by (simp add: LinkTarget_def LinkedPiece_def)

lemma LinkTarget_update [simp]:
  "LinkTarget st (p\<lparr>parent := x\<rparr>) = LinkTarget st p"
  "LinkTarget st (p\<lparr>children := y\<rparr>) = LinkTarget st p"
  by (simp_all add: LinkTarget_def)

lemma LinkTarget_model: "model st1 = model st \<Longrightarrow> LinkTarget st1 p = LinkTarget st p"
  by (simp add: LinkTarget_def)

lemma links_stable:
  assumes m: "model st1 = model st"
    and h: "\<forall>b. deref (heap st1) b = map_option (LinkedPiece st es0 b) (deref (heap st) b)"
  shows "Linked st1 es = Linked st es"
    and "NewChildren st1 es b = NewChildren st es b"
    and "LinkMessages st1 a = LinkMessages st a"
    and "LinkLog st1 es = LinkLog st es"
proof -
  show l: "Linked st1 es = Linked st es"
    by (simp add: Linked_def m)
  have t: "(case deref (heap st1) a of None \<Rightarrow> False | Some p \<Rightarrow> LinkTarget st1 p = Some b)
         = (case deref (heap st) a of None \<Rightarrow> False | Some p \<Rightarrow> LinkTarget st p = Some b)"
    for a
    by (cases "deref (heap st) a") (simp_all add: h LinkTarget_model [OF m])
  show "NewChildren st1 es b = NewChildren st es b"
    by (simp add: NewChildren_def l t)
  show msg: "LinkMessages st1 a = LinkMessages st a" for a
    by (cases "deref (heap st) a")
       (simp_all add: LinkMessages_def h LinkTarget_model [OF m], simp add: LinkedPiece_def)
  have "LinkMessages st1 = LinkMessages st"
    by (rule ext) (rule msg)
  then show "LinkLog st1 es = LinkLog st es"
    by (simp add: LinkLog_def l)
qed

lemma LinkedPiece_compose:
  assumes m: "model st1 = model st"
    and h: "\<forall>b. deref (heap st1) b = map_option (LinkedPiece st [e] b) (deref (heap st) b)"
  shows "LinkedPiece st1 es b (LinkedPiece st [e] b p) = LinkedPiece st (e # es) b p"
proof -
  have nc: "NewChildren st (e # es) b = NewChildren st [e] b @ NewChildren st es b"
    by (simp add: NewChildren_def)
  have nc1: "NewChildren st1 es b = NewChildren st es b"
    by (rule links_stable(2) [OF m h])
  have l1: "Linked st1 es = Linked st es"
    by (rule links_stable(1) [OF m h])
  show ?thesis
    by (auto simp: LinkedPiece_def nc nc1 l1 LinkTarget_model [OF m])
qed

lemma LinkPieces_closed_form:
  assumes "\<forall>a \<in> snd ` set es. deref (heap st) a \<noteq> None"
    and "\<forall>nm a. FindPiece (model st) nm = Some a \<longrightarrow> deref (heap st) a \<noteq> None"
    and "\<forall>r. rootPiece (model st) = Some r \<longrightarrow> deref (heap st) r \<noteq> None"
  shows "\<exists>st'. LinkPieces st es = Inr st' \<and> model st' = model st
     \<and> errlog st' = errlog st @ LinkLog st es
     \<and> (\<forall>b. deref (heap st') b = map_option (LinkedPiece st es b) (deref (heap st) b))"
  using assms
proof (induction es arbitrary: st)
  case Nil
  have "map_option (LinkedPiece st [] b) (deref (heap st) b) = deref (heap st) b" for b
    by (cases "deref (heap st) b") (simp_all add: LinkedPiece_def NewChildren_def)
  then show ?case by (simp add: LinkLog_def)
next
  case (Cons e es)
  from Cons.prems obtain st1 where 1: "LinkPiece st e = Inr st1" and m: "model st1 = model st"
    and l: "errlog st1 = errlog st @ LinkLog st [e]"
    and h: "\<forall>b. deref (heap st1) b = map_option (LinkedPiece st [e] b) (deref (heap st) b)"
    using LinkPiece_closed_form [of st e] by auto
  from Cons.prems have "\<exists>st'. LinkPieces st1 es = Inr st' \<and> model st' = model st1
     \<and> errlog st' = errlog st1 @ LinkLog st1 es
     \<and> (\<forall>b. deref (heap st') b = map_option (LinkedPiece st1 es b) (deref (heap st1) b))"
    by (intro Cons.IH) (auto simp: h m)
  then obtain st' where 2: "LinkPieces st1 es = Inr st'" and m': "model st' = model st1"
    and l': "errlog st' = errlog st1 @ LinkLog st1 es"
    and h': "\<forall>b. deref (heap st') b = map_option (LinkedPiece st1 es b) (deref (heap st1) b)"
    by blast
  have "LinkPieces st (e # es) = Inr st'"
    by (simp add: 1 2)
  moreover have "model st' = model st" by (simp add: m m')
  moreover have "errlog st' = errlog st @ LinkLog st (e # es)"
    by (simp add: l l' links_stable(4) [OF m h]) (simp add: LinkLog_def)
  moreover have "deref (heap st') b = map_option (LinkedPiece st (e # es) b) (deref (heap st) b)"
    for b
    by (cases "deref (heap st) b") (simp_all add: h h' LinkedPiece_compose [OF m h])
  ultimately show ?case by blast
qed

lemma count_list_distinct: "distinct xs \<Longrightarrow> count_list xs a = (if a \<in> set xs then 1 else 0)"
  by (induction xs) auto

lemma count_NewChildren:
  assumes "distinct (map snd es)" and "deref (heap st) a = Some p"
  shows "count_list (NewChildren st es b) a =
     (if a \<in> snd ` set es \<and> Some a \<noteq> rootPiece (model st) \<and> LinkTarget st p = Some b
      then 1 else 0)"
proof -
  have "distinct (NewChildren st es b)"
    using assms(1) by (simp add: NewChildren_def Linked_def)
  then show ?thesis
    using assms(2) by (auto simp: count_list_distinct NewChildren_def Linked_def)
qed

text \<open>
  C7, amended. The linking pass over a model whose map holds live pieces, each once, and
  whose root, if any, is live: it returns, leaves the model and the liveness of every
  address as they are, and logs \<open>LinkLog\<close>, whose messages are all at error level: one for
  each piece that is not the root and has no \<open>LinkTarget\<close>, "missing piece declared as
  parent" when its \<open>parentName\<close> is not empty and "missing root piece" otherwise. For every
  piece \<open>a\<close> of the map: its name and \<open>parentName\<close> are unchanged; if it is the root, its
  parent is unchanged; else its parent is its \<open>LinkTarget\<close> (null when there is none); and
  for every live piece \<open>b\<close>, the number of times \<open>a\<close> occurs in the children of \<open>b\<close> grows
  by one when \<open>a\<close> is not the root and \<open>b\<close> is its \<open>LinkTarget\<close>, and is unchanged otherwise.
\<close>

theorem BuildPieceHierarchy_links:
  assumes live: "\<forall>a \<in> snd ` set (pieceMap (model st)). deref (heap st) a \<noteq> None"
    and root: "case rootPiece (model st) of None \<Rightarrow> True | Some r \<Rightarrow> deref (heap st) r \<noteq> None"
    and dist: "distinct (map snd (pieceMap (model st)))"
  shows "\<exists>st'. BuildPieceHierarchy st = Inr st' \<and> model st' = model st
     \<and> errlog st' = errlog st @ LinkLog st (pieceMap (model st))
     \<and> (\<forall>b. (deref (heap st') b = None) = (deref (heap st) b = None))
     \<and> (\<forall>a \<in> snd ` set (pieceMap (model st)). \<forall>p. deref (heap st) a = Some p \<longrightarrow>
          (\<exists>p'. deref (heap st') a = Some p' \<and> name p' = name p \<and> parentName p' = parentName p
             \<and> parent p' = (if Some a = rootPiece (model st) then parent p else LinkTarget st p))
          \<and> (\<forall>b q. deref (heap st) b = Some q \<longrightarrow>
                (\<exists>q'. deref (heap st') b = Some q'
                   \<and> count_list (children q') a = count_list (children q) a
                        + (if Some a \<noteq> rootPiece (model st) \<and> LinkTarget st p = Some b
                           then 1 else 0))))"
proof -
  let ?pm = "pieceMap (model st)"
  have find: "\<forall>nm a. FindPiece (model st) nm = Some a \<longrightarrow> deref (heap st) a \<noteq> None"
    using live by (auto simp: FindPiece_def dest!: map_of_SomeD)
  have root': "\<forall>r. rootPiece (model st) = Some r \<longrightarrow> deref (heap st) r \<noteq> None"
    using root by (auto split: option.splits)
  from LinkPieces_closed_form [OF live find root']
  obtain st' where 1: "LinkPieces st ?pm = Inr st'" and m: "model st' = model st"
    and l: "errlog st' = errlog st @ LinkLog st ?pm"
    and h: "\<And>b. deref (heap st') b = map_option (LinkedPiece st ?pm b) (deref (heap st) b)"
    by blast
  have "BuildPieceHierarchy st = Inr st'"
    by (simp add: BuildPieceHierarchy_def 1)
  moreover have "(deref (heap st') b = None) = (deref (heap st) b = None)" for b
    by (simp add: h)
  moreover have "\<exists>p'. deref (heap st') a = Some p' \<and> name p' = name p
        \<and> parentName p' = parentName p
        \<and> parent p' = (if Some a = rootPiece (model st) then parent p else LinkTarget st p)"
    if "a \<in> snd ` set ?pm" "deref (heap st) a = Some p" for a p
    using that by (auto simp: h LinkedPiece_def Linked_def)
  moreover have "\<exists>q'. deref (heap st') b = Some q'
        \<and> count_list (children q') a = count_list (children q) a
             + (if Some a \<noteq> rootPiece (model st) \<and> LinkTarget st p = Some b then 1 else 0)"
    if "a \<in> snd ` set ?pm" "deref (heap st) a = Some p" "deref (heap st) b = Some q" for a p b q
    using that count_NewChildren [OF dist that(2), of b]
    by (simp add: h LinkedPiece_def)
  ultimately show ?thesis using m l by blast
qed

lemma chainScene_loaded:
  "LoadPiece testCollab emptyMeta newState [] chainScene = Inr (Some 0, chainLoaded)"
  by code_simp

lemma detachedScene_loaded:
  "LoadPiece testCollab missingMeta newState [] detachedScene = Inr (Some 0, detachedLoaded)"
  by code_simp

theorem BuildPieceHierarchy_links_witness:
  "(\<exists>st'. BuildPieceHierarchy chainLoaded = Inr st'
      \<and> errlog st' = []
      \<and> map_option children (deref (heap st') 0) = Some [3, 1, 4]
      \<and> map_option parent (deref (heap st') 0) = Some None
      \<and> map_option parent (deref (heap st') 1) = Some (Some 0)
      \<and> map_option children (deref (heap st') 1) = Some [2]
      \<and> map_option parent (deref (heap st') 2) = Some (Some 1)
      \<and> map_option parent (deref (heap st') 4) = Some (Some 0))
   \<and> (\<exists>st'. BuildPieceHierarchy detachedLoaded = Inr st'
      \<and> errlog st' = [(L_ERROR, MissingParent ''Missing'' ''B'')]
      \<and> map_option parent (deref (heap st') 1) = Some None
      \<and> map_option children (deref (heap st') 0) = Some [])"
proof -
  have h: "\<forall>a \<in> snd ` set (pieceMap (model chainLoaded)). deref (heap chainLoaded) a \<noteq> None"
    "case rootPiece (model chainLoaded) of None \<Rightarrow> True
     | Some r \<Rightarrow> deref (heap chainLoaded) r \<noteq> None"
    "distinct (map snd (pieceMap (model chainLoaded)))"
    by code_simp+
  from BuildPieceHierarchy_links [OF h] obtain st1 where
    1: "BuildPieceHierarchy chainLoaded = Inr st1"
    and 2: "errlog st1 = errlog chainLoaded @ LinkLog chainLoaded (pieceMap (model chainLoaded))"
    by blast
  have l: "errlog chainLoaded @ LinkLog chainLoaded (pieceMap (model chainLoaded)) = []"
    by code_simp
  have v: "case BuildPieceHierarchy chainLoaded of
        Inl e \<Rightarrow> False
      | Inr s \<Rightarrow> map_option children (deref (heap s) 0) = Some [3, 1, 4]
          \<and> map_option parent (deref (heap s) 0) = Some None
          \<and> map_option parent (deref (heap s) 1) = Some (Some 0)
          \<and> map_option children (deref (heap s) 1) = Some [2]
          \<and> map_option parent (deref (heap s) 2) = Some (Some 1)
          \<and> map_option parent (deref (heap s) 4) = Some (Some 0)"
    by code_simp
  have h': "\<forall>a \<in> snd ` set (pieceMap (model detachedLoaded)). deref (heap detachedLoaded) a \<noteq> None"
    "case rootPiece (model detachedLoaded) of None \<Rightarrow> True
     | Some r \<Rightarrow> deref (heap detachedLoaded) r \<noteq> None"
    "distinct (map snd (pieceMap (model detachedLoaded)))"
    by code_simp+
  from BuildPieceHierarchy_links [OF h'] obtain st2 where
    3: "BuildPieceHierarchy detachedLoaded = Inr st2"
    and 4: "errlog st2 = errlog detachedLoaded
              @ LinkLog detachedLoaded (pieceMap (model detachedLoaded))"
    by blast
  have l': "errlog detachedLoaded @ LinkLog detachedLoaded (pieceMap (model detachedLoaded))
      = [(L_ERROR, MissingParent ''Missing'' ''B'')]"
    by code_simp
  have v': "case BuildPieceHierarchy detachedLoaded of
        Inl e \<Rightarrow> False
      | Inr s \<Rightarrow> map_option parent (deref (heap s) 1) = Some None
          \<and> map_option children (deref (heap s) 0) = Some []"
    by code_simp
  from 1 2 v have "\<exists>st'. BuildPieceHierarchy chainLoaded = Inr st'
      \<and> errlog st' = []
      \<and> map_option children (deref (heap st') 0) = Some [3, 1, 4]
      \<and> map_option parent (deref (heap st') 0) = Some None
      \<and> map_option parent (deref (heap st') 1) = Some (Some 0)
      \<and> map_option children (deref (heap st') 1) = Some [2]
      \<and> map_option parent (deref (heap st') 2) = Some (Some 1)
      \<and> map_option parent (deref (heap st') 4) = Some (Some 0)"
    unfolding l by auto
  moreover from 3 4 v' have "\<exists>st'. BuildPieceHierarchy detachedLoaded = Inr st'
      \<and> errlog st' = [(L_ERROR, MissingParent ''Missing'' ''B'')]
      \<and> map_option parent (deref (heap st') 1) = Some None
      \<and> map_option children (deref (heap st') 0) = Some []"
    unfolding l' by auto
  ultimately show ?thesis by blast
qed

text \<open>
  C7 as stated fails where it makes a missing root a fatal-level error: for a piece
  without parent name in a model without root piece the pass logs "missing root piece" at
  error level, the level of a missing declared parent, leaves the piece detached and
  returns.
\<close>

theorem missing_root_counterexample:
  "BuildPieceHierarchy orphanNoRoot = Inr (orphanNoRoot\<lparr>errlog := [(L_ERROR, MissingRootPiece)]\<rparr>)
   \<and> rootPiece (model orphanNoRoot) = None
   \<and> map_option parentName (deref (heap orphanNoRoot) 0) = Some []
   \<and> L_ERROR \<noteq> L_FATAL"
  by code_simp

section \<open>Unique names and the piece map\<close>

text \<open>
  What the loop of \<^verbatim>\<open>SetPieceName\<close> does establish: a name that is a key of the map gets
  the first suffix, counted from \<open>00\<close>, with which it is not a key, and the resolved name
  of a piece that is not the unnamed root is never a key of the map at that moment.
\<close>

lemma NewPieceName_first:
  "\<exists>k\<ge>i. NewPieceName pm base i = base @ IntToString k
      \<and> map_of pm (base @ IntToString k) = None
      \<and> (\<forall>j. i \<le> j \<and> j < k \<longrightarrow> map_of pm (base @ IntToString j) \<noteq> None)"
proof (induction pm base i rule: NewPieceName.induct)
  case (1 pm base i)
  show ?case
  proof (cases "map_of pm (base @ IntToString i) = None")
    case True
    then have "NewPieceName pm base i = base @ IntToString i"
      by (subst NewPieceName.simps) simp
    with True show ?thesis by (intro exI [of _ i]) auto
  next
    case False
    with 1 obtain k where k: "Suc i \<le> k" "NewPieceName pm base (Suc i) = base @ IntToString k"
      "map_of pm (base @ IntToString k) = None"
      "\<forall>j. Suc i \<le> j \<and> j < k \<longrightarrow> map_of pm (base @ IntToString j) \<noteq> None"
      by blast
    have "NewPieceName pm base i = base @ IntToString k"
      using False k(2) by (subst NewPieceName.simps) simp
    moreover have "map_of pm (base @ IntToString j) \<noteq> None" if "i \<le> j" "j < k" for j
      using that False k(4) by (cases "j = i") auto
    ultimately show ?thesis using k(1,3) by (intro exI [of _ k]) auto
  qed
qed

lemma UniquePieceName_first:
  "map_of pm nm \<noteq> None \<Longrightarrow>
     \<exists>k. UniquePieceName pm nm = nm @ IntToString k
        \<and> map_of pm (nm @ IntToString k) = None
        \<and> (\<forall>j<k. map_of pm (nm @ IntToString j) \<noteq> None)"
  using NewPieceName_first [of 0 pm nm] by (auto simp: UniquePieceName_def)

lemma UniquePieceName_unchanged: "map_of pm nm = None \<Longrightarrow> UniquePieceName pm nm = nm"
  by (simp add: UniquePieceName_def)

lemma siblingScene_names:
  "(case Load testCollab emptyMeta (Some siblingScene) of
      Some (Inr st) \<Rightarrow>
        pieceMap (model st) = [(''R'', 0), (''Turret'', 1), (''Turret00'', 2), (''Turret01'', 3)]
        \<and> numPieces (model st) = 4
    | _ \<Rightarrow> False)"
  by code_simp

text \<open>
  C8 at a node that has the name of one of its ancestors. A piece enters the map after
  its children have been visited, so the name of an ancestor is not yet a key when the
  descendant is named: in \<open>nestedScene\<close> the pieces at the addresses 1 and 2 are both live
  and both named \<open>A\<close>.
\<close>

theorem nested_names_shared:
  "(case Load testCollab emptyMeta (Some nestedScene) of
      Some (Inr st) \<Rightarrow>
        map_option name (deref (heap st) 1) = Some ''A''
        \<and> map_option name (deref (heap st) 2) = Some ''A''
        \<and> FindPiece (model st) ''A'' = Some 1
    | _ \<Rightarrow> False)"
  by code_simp

text \<open>
  C1 on the same scene: the load succeeds, three pieces are live and counted, the map has
  two entries, and the piece at the address 2 is no value of the map: the entry of the
  inner \<open>A\<close> was replaced by that of the outer one.
\<close>

theorem nested_names_lose_piece:
  "(case Load testCollab emptyMeta (Some nestedScene) of
      Some (Inr st) \<Rightarrow>
        numPieces (model st) = 3
        \<and> pieceMap (model st) = [(''A'', 1), (''R'', 0)]
        \<and> rootPiece (model st) = Some 0
        \<and> deref (heap st) 2 \<noteq> None
        \<and> 2 \<notin> snd ` set (pieceMap (model st))
    | _ \<Rightarrow> False)"
  by code_simp

section \<open>The bounds pass\<close>

text \<open>
  The pass over a tree of the store, with enough fuel for its depth, returns. It changes
  nothing of a piece but the global offset, sets that of every piece of the tree as
  \<open>Goffsets\<close> computes it from the store before the pass (\<open>CMD_visit\<close>), and folds the
  corners of the pieces into the bounds of the model in the order of the traversal.
\<close>

lemma goffset_variant_SetGoffset:
  "\<forall>b. deref h' b = map_option (SetGoffset gs b) (deref h b) \<Longrightarrow> goffset_variant h h'"
  unfolding goffset_variant_def
proof
  fix b
  assume a: "\<forall>b. deref h' b = map_option (SetGoffset gs b) (deref h b)"
  show "\<exists>g. deref h' b = map_option (\<lambda>p. p\<lparr>goffset := g\<rparr>) (deref h b)"
  proof (cases "deref h b")
    case None
    then show ?thesis using a by simp
  next
    case (Some p)
    show ?thesis
    proof (cases "map_of gs b")
      case None
      with \<open>deref h b = Some p\<close> a
      have "deref h' b = Some p"
        by (simp add: SetGoffset_def)
      with \<open>deref h b = Some p\<close> show ?thesis
        by (intro exI [of _ "goffset p"]) simp
    next
      case (Some g)
      with \<open>deref h b = Some p\<close> a show ?thesis
        by (auto simp: SetGoffset_def)
    qed
  qed
qed

lemma hierarchy_variant:
  "goffset_variant h h' \<Longrightarrow> hierarchy h' par t = hierarchy h par t"
proof (induction h par t rule: hierarchy.induct)
  case (1 h par a ts)
  from 1(2) obtain g where g: "deref h' a = map_option (\<lambda>p. p\<lparr>goffset := g\<rparr>) (deref h a)"
    unfolding goffset_variant_def by blast
  show ?case
  proof (cases "deref h a")
    case None
    with g show ?thesis by simp
  next
    case (Some p)
    with 1 g show ?thesis by simp
  qed
qed

lemma TransformedOffset_goffset [simp]:
  "TransformedOffset E (p\<lparr>goffset := g\<rparr>) = TransformedOffset E p"
  by (simp add: TransformedOffset_def)

lemma Goffsets_variant:
  "goffset_variant h h' \<Longrightarrow> Goffsets E h' pg t = Goffsets E h pg t"
proof (induction E h pg t rule: Goffsets.induct)
  case (1 E h pg a ts)
  from 1(2) obtain g where g: "deref h' a = map_option (\<lambda>p. p\<lparr>goffset := g\<rparr>) (deref h a)"
    unfolding goffset_variant_def by blast
  show ?case
  proof (cases "deref h a")
    case None
    with g show ?thesis by simp
  next
    case (Some p)
    with 1 g show ?thesis by (simp cong: map_cong)
  qed
qed

lemma Bounds_variant:
  assumes "goffset_variant h h'"
  shows "BoundsMin h' m0 gs = BoundsMin h m0 gs" and "BoundsMax h' m0 gs = BoundsMax h m0 gs"
proof -
  have v: "\<exists>g. deref h' a = map_option (\<lambda>p. p\<lparr>goffset := g\<rparr>) (deref h a)" for a
    using assms unfolding goffset_variant_def by blast
  have "(case deref h' a of None \<Rightarrow> m | Some p \<Rightarrow> float3_min (vadd g (SAssPiece.mins p)) m)
      = (case deref h a of None \<Rightarrow> m | Some p \<Rightarrow> float3_min (vadd g (SAssPiece.mins p)) m)"
    for a g m
    using v [of a] by (cases "deref h a") auto
  then show "BoundsMin h' m0 gs = BoundsMin h m0 gs"
    by (simp add: BoundsMin_def)
  have "(case deref h' a of None \<Rightarrow> m | Some p \<Rightarrow> float3_max (vadd g (SAssPiece.maxs p)) m)
      = (case deref h a of None \<Rightarrow> m | Some p \<Rightarrow> float3_max (vadd g (SAssPiece.maxs p)) m)"
    for a g m
    using v [of a] by (cases "deref h a") auto
  then show "BoundsMax h' m0 gs = BoundsMax h m0 gs"
    by (simp add: BoundsMax_def)
qed

lemma Goffsets_keys: "hierarchy h par t \<Longrightarrow> map fst (Goffsets E h pg t) = pt_nodes t"
proof (induction E h pg t arbitrary: par rule: Goffsets.induct)
  case (1 E h pg a ts)
  then obtain p where p: "deref h a = Some p" and sub: "\<forall>t \<in> set ts. hierarchy h (Some a) t"
    by (auto split: option.splits)
  have "map fst (Goffsets E h (vadd (TransformedOffset E p) pg) t) = pt_nodes t"
    if "t \<in> set ts" for t
    using 1(1) [OF p that] sub that by blast
  then show ?case
    by (simp add: p map_concat cong: map_cong)
qed

lemma VisitedBy_Nil: "VisitedBy [] st st"
proof -
  have "map_option (SetGoffset [] b) (deref (heap st) b) = deref (heap st) b" for b
    by (cases "deref (heap st) b") (simp_all add: SetGoffset_def)
  then show ?thesis
    by (simp add: VisitedBy_def BoundsMin_def BoundsMax_def)
qed

lemma SetGoffset_append:
  "fst ` set gs1 \<inter> fst ` set gs2 = {} \<Longrightarrow>
     SetGoffset gs2 b (SetGoffset gs1 b p) = SetGoffset (gs1 @ gs2) b p"
proof -
  assume d: "fst ` set gs1 \<inter> fst ` set gs2 = {}"
  show ?thesis
  proof (cases "map_of gs1 b")
    case None
    then show ?thesis
      by (simp add: SetGoffset_def map_add_def split: option.splits)
  next
    case (Some g)
    then have "b \<in> fst ` set gs1" by (metis map_of_eq_None_iff option.distinct(1))
    with d have "b \<notin> fst ` set gs2" by auto
    then have "map_of gs2 b = None" by (simp add: map_of_eq_None_iff)
    with Some show ?thesis
      by (simp add: SetGoffset_def map_add_def)
  qed
qed

lemma VisitedBy_append:
  assumes 1: "VisitedBy gs1 st st1" and 2: "VisitedBy gs2 st1 st2"
    and d: "fst ` set gs1 \<inter> fst ` set gs2 = {}"
  shows "VisitedBy (gs1 @ gs2) st st2"
proof -
  have h1: "\<forall>b. deref (heap st1) b = map_option (SetGoffset gs1 b) (deref (heap st) b)"
    using 1 by (simp add: VisitedBy_def)
  have v: "goffset_variant (heap st) (heap st1)"
    by (rule goffset_variant_SetGoffset [OF h1])
  have "deref (heap st2) b = map_option (SetGoffset (gs1 @ gs2) b) (deref (heap st) b)" for b
    using 2 h1 SetGoffset_append [OF d, of b]
    by (cases "deref (heap st) b") (simp_all add: VisitedBy_def)
  moreover have "errlog st2 = errlog st"
    using 1 2 by (simp add: VisitedBy_def)
  moreover have "model st2 = (model st)
         \<lparr>S3DModel.mins := BoundsMin (heap st) (S3DModel.mins (model st)) (gs1 @ gs2),
          S3DModel.maxs := BoundsMax (heap st) (S3DModel.maxs (model st)) (gs1 @ gs2)\<rparr>"
    using 1 2
    by (simp add: VisitedBy_def Bounds_variant [OF v]) (simp add: BoundsMin_def BoundsMax_def)
  ultimately show ?thesis by (simp add: VisitedBy_def)
qed

lemma foldr_max_le: "foldr max (map f xs) (0::nat) \<le> n \<longleftrightarrow> (\<forall>x \<in> set xs. f x \<le> n)"
  by (induction xs) auto

lemma CMD_children_visit:
  fixes E :: "('f::{ord,zero,plus}, 't, 'q, 'm) collab"
  assumes IH: "\<And>t (st :: ('f, 'm) state). t \<in> set ts \<Longrightarrow> hierarchy (heap st) (Some a) t \<Longrightarrow>
        map_option goffset (deref (heap st) a) = Some g \<Longrightarrow>
        \<exists>st'. CalculateModelDimensions E n st (pt_addr t) = Some (Inr st')
           \<and> VisitedBy (Goffsets E (heap st) g t) st st'"
    and hier: "\<forall>t \<in> set ts. hierarchy (heap st) (Some a) t"
    and dist: "distinct (concat (map pt_nodes ts))"
    and notin: "a \<notin> set (concat (map pt_nodes ts))"
    and pg: "map_option goffset (deref (heap st) a) = Some g"
  shows "\<exists>st'. CalculateModelDimensions_children E n st (map pt_addr ts) = Some (Inr st')
     \<and> VisitedBy (concat (map (Goffsets E (heap st) g) ts)) st st'"
  using assms
proof (induction ts arbitrary: st)
  case Nil
  then show ?case by (simp add: VisitedBy_Nil)
next
  case (Cons t ts)
  from Cons.prems(1) [of t st] Cons.prems(2,5) obtain st1 where
    1: "CalculateModelDimensions E n st (pt_addr t) = Some (Inr st1)"
    and v1: "VisitedBy (Goffsets E (heap st) g t) st st1"
    by auto
  have h1: "\<forall>b. deref (heap st1) b
       = map_option (SetGoffset (Goffsets E (heap st) g t) b) (deref (heap st) b)"
    using v1 by (simp add: VisitedBy_def)
  have var: "goffset_variant (heap st) (heap st1)"
    by (rule goffset_variant_SetGoffset [OF h1])
  have keys: "map fst (Goffsets E (heap st) g t) = pt_nodes t"
    using Cons.prems(2) by (intro Goffsets_keys [of _ "Some a"]) simp
  have "a \<notin> set (pt_nodes t)" using Cons.prems(4) by simp
  then have "map_of (Goffsets E (heap st) g t) a = None"
    using keys by (metis map_of_eq_None_iff set_map)
  then have pa: "map_option goffset (deref (heap st1) a) = Some g"
    using Cons.prems(5) h1 by (cases "deref (heap st) a") (simp_all add: SetGoffset_def)
  have IH': "\<exists>st''. CalculateModelDimensions E n st' (pt_addr t') = Some (Inr st'')
           \<and> VisitedBy (Goffsets E (heap st') g t') st' st''"
    if "t' \<in> set ts" "hierarchy (heap st') (Some a) t'"
      "map_option goffset (deref (heap st') a) = Some g" for t' and st' :: "('f, 'm) state"
    using that by (intro Cons.prems(1)) simp_all
  have hier1: "\<forall>t \<in> set ts. hierarchy (heap st1) (Some a) t"
    using Cons.prems(2) by (simp add: hierarchy_variant [OF var])
  have dist1: "distinct (concat (map pt_nodes ts))"
    and notin1: "a \<notin> set (concat (map pt_nodes ts))"
    using Cons.prems(3,4) by simp_all
  from Cons.IH [of st1, OF IH' hier1 dist1 notin1 pa] obtain st2 where
    2: "CalculateModelDimensions_children E n st1 (map pt_addr ts) = Some (Inr st2)"
    and v2: "VisitedBy (concat (map (Goffsets E (heap st1) g) ts)) st1 st2"
    by blast
  have same: "concat (map (Goffsets E (heap st1) g) ts) = concat (map (Goffsets E (heap st) g) ts)"
  proof -
    have "Goffsets E (heap st1) g = Goffsets E (heap st) g"
      by (rule ext) (rule Goffsets_variant [OF var])
    then show ?thesis by simp
  qed
  have keys2: "fst ` set (concat (map (Goffsets E (heap st) g) ts))
       = set (concat (map pt_nodes ts))"
  proof -
    have "map fst (Goffsets E (heap st) g t') = pt_nodes t'" if "t' \<in> set ts" for t'
      using Cons.prems(2) that by (intro Goffsets_keys [of _ "Some a"]) simp
    then have "map fst (concat (map (Goffsets E (heap st) g) ts)) = concat (map pt_nodes ts)"
      by (simp add: map_concat cong: map_cong)
    then show ?thesis by (metis set_map)
  qed
  have disj: "fst ` set (Goffsets E (heap st) g t)
       \<inter> fst ` set (concat (map (Goffsets E (heap st) g) ts)) = {}"
    using Cons.prems(3) keys keys2 by (metis distinct_append concat.simps(2) list.simps(9) set_map)
  have "VisitedBy (Goffsets E (heap st) g t @ concat (map (Goffsets E (heap st) g) ts)) st st2"
    using v1 v2 disj unfolding same by (rule VisitedBy_append)
  then show ?case
    using 1 2 by simp
qed

lemma CMD_visit:
  fixes E :: "('f::{ord,zero,plus}, 't, 'q, 'm) collab" and st :: "('f, 'm) state"
  assumes "hierarchy (heap st) par t" and "distinct (pt_nodes t)" and "pt_depth t \<le> fuel"
    and "case par of None \<Rightarrow> pg = ZeroVector
         | Some pa \<Rightarrow> pa \<notin> set (pt_nodes t) \<and> map_option goffset (deref (heap st) pa) = Some pg"
  shows "\<exists>st'. CalculateModelDimensions E fuel st (pt_addr t) = Some (Inr st')
     \<and> VisitedBy (Goffsets E (heap st) pg t) st st'"
  using assms
proof (induction t arbitrary: st par pg fuel)
  case (PTree a ts)
  from PTree.prems(1) obtain p where p: "deref (heap st) a = Some p"
    and par: "parent p = par" and ch: "children p = map pt_addr ts"
    and sub: "\<forall>t \<in> set ts. hierarchy (heap st) (Some a) t"
    by (auto split: option.splits)
  from PTree.prems(3) obtain n where fuel: "fuel = Suc n"
    and depth: "\<forall>t \<in> set ts. pt_depth t \<le> n"
    by (cases fuel) (auto simp: foldr_max_le)
  have len: "a < length (heap st)"
    using p by (auto simp: deref_def split: if_splits)
  have pgv: "(case parent p of None \<Rightarrow> Some ZeroVector
              | Some pa \<Rightarrow> map_option goffset (deref (heap st) pa)) = Some pg"
    using PTree.prems(4) par by (auto split: option.splits)
  define g where "g = vadd (TransformedOffset E p) pg"
  define st0 where "st0 = store a (p\<lparr>goffset := g\<rparr>)
     (st\<lparr>model := (model st)
        \<lparr>S3DModel.mins := float3_min (vadd g (SAssPiece.mins p)) (S3DModel.mins (model st)),
         S3DModel.maxs := float3_max (vadd g (SAssPiece.maxs p)) (S3DModel.maxs (model st))\<rparr>\<rparr>)"
  have unfold: "CalculateModelDimensions E fuel st a
      = CalculateModelDimensions_children E n st0 (map pt_addr ts)"
    using pgv by (simp add: fuel p Let_def g_def st0_def TransformedOffset_def ch)
  have h0: "deref (heap st0) b = map_option (SetGoffset [(a, g)] b) (deref (heap st) b)" for b
  proof (cases "b = a")
    case True
    then show ?thesis using p len by (simp add: st0_def SetGoffset_def)
  next
    case False
    then have "SetGoffset [(a, g)] b = (\<lambda>p :: ('f, 'm) SAssPiece. p)"
      by (simp add: SetGoffset_def fun_eq_iff)
    with False show ?thesis
      by (cases "deref (heap st) b") (simp_all add: st0_def)
  qed
  have v0: "VisitedBy [(a, g)] st st0"
    unfolding VisitedBy_def using h0
    by (simp add: BoundsMin_def BoundsMax_def p) (simp add: st0_def)
  have var: "goffset_variant (heap st) (heap st0)"
    using h0 by (intro goffset_variant_SetGoffset [where gs = "[(a, g)]"]) simp
  have nodes: "a \<notin> set (concat (map pt_nodes ts))" "distinct (concat (map pt_nodes ts))"
    using PTree.prems(2) by simp_all
  have IH: "\<exists>st''. CalculateModelDimensions E n st' (pt_addr t) = Some (Inr st'')
           \<and> VisitedBy (Goffsets E (heap st') g t) st' st''"
    if "t \<in> set ts" "hierarchy (heap st') (Some a) t"
      "map_option goffset (deref (heap st') a) = Some g" for t and st' :: "('f, 'm) state"
  proof (rule PTree.IH [OF that(1,2)])
    show "distinct (pt_nodes t)"
      using nodes(2) that(1) by (auto simp: distinct_concat_iff)
    show "pt_depth t \<le> n" using depth that(1) by simp
    show "case Some a of None \<Rightarrow> g = ZeroVector
         | Some pa \<Rightarrow> pa \<notin> set (pt_nodes t) \<and> map_option goffset (deref (heap st') pa) = Some g"
      using nodes(1) that(1,3) by auto
  qed
  have hier0: "\<forall>t \<in> set ts. hierarchy (heap st0) (Some a) t"
    using sub by (simp add: hierarchy_variant [OF var])
  have pa0: "map_option goffset (deref (heap st0) a) = Some g"
    using len by (simp add: st0_def)
  from CMD_children_visit [of ts a g E n st0, OF IH hier0 nodes(2) nodes(1) pa0] obtain st2 where
    2: "CalculateModelDimensions_children E n st0 (map pt_addr ts) = Some (Inr st2)"
    and v2: "VisitedBy (concat (map (Goffsets E (heap st0) g) ts)) st0 st2"
    by blast
  have same: "concat (map (Goffsets E (heap st0) g) ts) = concat (map (Goffsets E (heap st) g) ts)"
  proof -
    have "Goffsets E (heap st0) g = Goffsets E (heap st) g"
      by (rule ext) (rule Goffsets_variant [OF var])
    then show ?thesis by simp
  qed
  have keys: "fst ` set (concat (map (Goffsets E (heap st) g) ts))
       = set (concat (map pt_nodes ts))"
  proof -
    have "map fst (Goffsets E (heap st) g t') = pt_nodes t'" if "t' \<in> set ts" for t'
      using sub that by (intro Goffsets_keys [of _ "Some a"]) simp
    then have "map fst (concat (map (Goffsets E (heap st) g) ts)) = concat (map pt_nodes ts)"
      by (simp add: map_concat cong: map_cong)
    then show ?thesis by (metis set_map)
  qed
  have disj: "fst ` set [(a, g)] \<inter> fst ` set (concat (map (Goffsets E (heap st) g) ts)) = {}"
    using nodes(1) keys by simp
  have "VisitedBy ([(a, g)] @ concat (map (Goffsets E (heap st) g) ts)) st st2"
    using v0 v2 disj unfolding same by (rule VisitedBy_append)
  then have "VisitedBy (Goffsets E (heap st) pg (PTree a ts)) st st2"
    by (simp add: p g_def)
  with unfold 2 show ?case by simp
qed

lemma map_of_concat_member:
  assumes "distinct (map fst (concat xss))" and "xs \<in> set xss" and "map_of xs k = Some v"
  shows "map_of (concat xss) k = Some v"
  using assms
proof (induction xss)
  case Nil
  then show ?case by simp
next
  case (Cons ys xss)
  show ?case
  proof (cases "xs = ys")
    case True
    with Cons.prems(3) show ?thesis by (simp add: map_add_def)
  next
    case False
    with Cons.prems have in_tl: "xs \<in> set xss" by simp
    from Cons.prems(1) have d: "distinct (map fst (concat xss))"
      and disj: "fst ` set ys \<inter> fst ` set (concat xss) = {}"
      by auto
    from Cons.IH [OF d in_tl Cons.prems(3)] have tl: "map_of (concat xss) k = Some v" .
    then have "k \<in> fst ` set (concat xss)"
      by (metis map_of_eq_None_iff option.distinct(1))
    with disj have "k \<notin> fst ` set ys" by auto
    then have "map_of ys k = None" by (simp add: map_of_eq_None_iff)
    with tl show ?thesis by (simp add: map_add_def)
  qed
qed

lemma Goffsets_keys_concat:
  assumes "\<forall>t \<in> set ts. hierarchy h par t"
  shows "map fst (concat (map (Goffsets E h g) ts)) = concat (map pt_nodes ts)"
proof -
  have "map fst (Goffsets E h g t) = pt_nodes t" if "t \<in> set ts" for t
    using assms that by (intro Goffsets_keys [of _ par]) simp
  then show ?thesis by (simp add: map_concat cong: map_cong)
qed

text \<open>The offset of a node of the tree, from that of its parent.\<close>

lemma Goffsets_parent:
  assumes "hierarchy h par t" and "distinct (pt_nodes t)" and "c \<in> set (pt_nodes t)"
  shows "\<exists>pc. deref h c = Some pc \<and>
     (if c = pt_addr t
      then parent pc = par
        \<and> map_of (Goffsets E h pg t) c = Some (vadd (TransformedOffset E pc) pg)
      else \<exists>pa gpa. parent pc = Some pa \<and> pa \<in> set (pt_nodes t)
        \<and> map_of (Goffsets E h pg t) pa = Some gpa
        \<and> map_of (Goffsets E h pg t) c = Some (vadd (TransformedOffset E pc) gpa))"
  using assms
proof (induction t arbitrary: par pg)
  case (PTree a ts)
  from PTree.prems(1) obtain p where p: "deref h a = Some p"
    and par: "parent p = par" and sub: "\<forall>t \<in> set ts. hierarchy h (Some a) t"
    by (auto split: option.splits)
  define g where "g = vadd (TransformedOffset E p) pg"
  define rest where "rest = concat (map (Goffsets E h g) ts)"
  have G: "Goffsets E h pg (PTree a ts) = (a, g) # rest"
    by (simp add: p g_def rest_def)
  have keys: "map fst rest = concat (map pt_nodes ts)"
    unfolding rest_def by (rule Goffsets_keys_concat [OF sub])
  have d: "distinct (map fst rest)"
    using PTree.prems(2) by (simp add: keys)
  have "fst ` set rest = set (concat (map pt_nodes ts))"
    by (metis keys set_map)
  then have na: "a \<notin> fst ` set rest"
    using PTree.prems(2) by simp
  show ?case
  proof (cases "c = a")
    case True
    then show ?thesis by (simp add: p par g_def)
  next
    case False
    with PTree.prems(3) obtain t where t: "t \<in> set ts" and c: "c \<in> set (pt_nodes t)"
      by auto
    have dt: "distinct (pt_nodes t)"
      using PTree.prems(2) t by (auto simp: distinct_concat_iff)
    from PTree.IH [OF t _ dt c, of "Some a" g] sub t obtain pc where pc: "deref h c = Some pc"
      and cases: "if c = pt_addr t
        then parent pc = Some a
          \<and> map_of (Goffsets E h g t) c = Some (vadd (TransformedOffset E pc) g)
        else \<exists>pa gpa. parent pc = Some pa \<and> pa \<in> set (pt_nodes t)
          \<and> map_of (Goffsets E h g t) pa = Some gpa
          \<and> map_of (Goffsets E h g t) c = Some (vadd (TransformedOffset E pc) gpa)"
      by blast
    have lift: "map_of ((a, g) # rest) k = Some v"
      if "map_of (Goffsets E h g t) k = Some v" for k v
    proof -
      have "map_of rest k = Some v"
        unfolding rest_def using d t that
        by (intro map_of_concat_member [of _ "Goffsets E h g t"]) (simp_all add: rest_def)
      moreover from this have "k \<noteq> a"
        using na by (metis map_of_eq_None_iff option.distinct(1))
      ultimately show ?thesis by simp
    qed
    show ?thesis
    proof (cases "c = pt_addr t")
      case True
      with cases have "parent pc = Some a"
        and "map_of (Goffsets E h g t) c = Some (vadd (TransformedOffset E pc) g)"
        by simp_all
      have "map_of ((a, g) # rest) c = Some (vadd (TransformedOffset E pc) g)"
        by (rule lift) fact
      moreover have "map_of ((a, g) # rest) a = Some g" by simp
      ultimately show ?thesis
        using False pc \<open>parent pc = Some a\<close> unfolding G by auto
    next
      case ne: False
      with cases obtain pa gpa where "parent pc = Some pa" "pa \<in> set (pt_nodes t)"
        "map_of (Goffsets E h g t) pa = Some gpa"
        "map_of (Goffsets E h g t) c = Some (vadd (TransformedOffset E pc) gpa)"
        by auto
      note q = this
      have "map_of ((a, g) # rest) pa = Some gpa"
        by (rule lift) fact
      moreover have "map_of ((a, g) # rest) c = Some (vadd (TransformedOffset E pc) gpa)"
        by (rule lift) fact
      moreover have "pa \<in> set (pt_nodes (PTree a ts))"
        using q(2) t by auto
      ultimately show ?thesis
        using False pc q(1) unfolding G by auto
    qed
  qed
qed

lemma Goffsets_chain:
  assumes "hierarchy h par t" and "distinct (pt_nodes t)" and "ch \<in> set (pt_chains t)"
  shows "ch \<noteq> [] \<and> set ch \<subseteq> set (pt_nodes t)
     \<and> map_of (Goffsets E h pg t) (last ch) = Some (ChainOffset E h pg ch)"
  using assms
proof (induction t arbitrary: par pg ch)
  case (PTree a ts)
  from PTree.prems(1) obtain p where p: "deref h a = Some p"
    and sub: "\<forall>t \<in> set ts. hierarchy h (Some a) t"
    by (auto split: option.splits)
  define g where "g = vadd (TransformedOffset E p) pg"
  define rest where "rest = concat (map (Goffsets E h g) ts)"
  have G: "Goffsets E h pg (PTree a ts) = (a, g) # rest"
    by (simp add: p g_def rest_def)
  have keys: "map fst rest = concat (map pt_nodes ts)"
    unfolding rest_def by (rule Goffsets_keys_concat [OF sub])
  have d: "distinct (map fst rest)"
    using PTree.prems(2) by (simp add: keys)
  have "fst ` set rest = set (concat (map pt_nodes ts))"
    by (metis keys set_map)
  then have na: "a \<notin> fst ` set rest"
    using PTree.prems(2) by simp
  show ?case
  proof (cases "ch = [a]")
    case True
    then show ?thesis by (simp add: G ChainOffset_def p g_def)
  next
    case False
    with PTree.prems(3) obtain t ch' where t: "t \<in> set ts" and ch': "ch' \<in> set (pt_chains t)"
      and ch: "ch = a # ch'"
      by auto
    have dt: "distinct (pt_nodes t)"
      using PTree.prems(2) t by (auto simp: distinct_concat_iff)
    from PTree.IH [OF t _ dt ch', of "Some a" g] sub t
    have ne: "ch' \<noteq> []" and ss: "set ch' \<subseteq> set (pt_nodes t)"
      and m: "map_of (Goffsets E h g t) (last ch') = Some (ChainOffset E h g ch')"
      by blast+
    have "map_of rest (last ch') = Some (ChainOffset E h g ch')"
      unfolding rest_def using d t m
      by (intro map_of_concat_member [of _ "Goffsets E h g t"]) (simp_all add: rest_def)
    moreover from this have "last ch' \<noteq> a"
      using na by (metis map_of_eq_None_iff option.distinct(1))
    moreover have "ChainOffset E h pg (a # ch') = ChainOffset E h g ch'"
      by (simp add: ChainOffset_def p g_def)
    ultimately have "map_of ((a, g) # rest) (last (a # ch')) = Some (ChainOffset E h pg (a # ch'))"
      using ne by simp
    moreover have "set (a # ch') \<subseteq> set (pt_nodes (PTree a ts))"
      using ss t by auto
    ultimately show ?thesis
      unfolding G ch by simp
  qed
qed

lemma std_min_linorder: "std_min a b = min b (a :: 'a::linorder)"
  by (auto simp: std_min_def min_def)

lemma std_max_linorder: "std_max a b = max b (a :: 'a::linorder)"
  by (auto simp: std_max_def max_def)

lemma Min_image_Cons: "Min (f ` set (v # vs)) = fold min (map f vs) (f v :: 'a::linorder)"
proof -
  have "f ` set (v # vs) = set (f v # map f vs)" by simp
  then show ?thesis by (simp only: Min.set_eq_fold)
qed

lemma Max_image_Cons: "Max (f ` set (v # vs)) = fold max (map f vs) (f v :: 'a::linorder)"
proof -
  have "f ` set (v # vs) = set (f v # map f vs)" by simp
  then show ?thesis by (simp only: Max.set_eq_fold)
qed

lemma foldl_float3_min:
  "foldl (\<lambda>m v. float3_min v m) m0 vs = float3_Min (m0 # vs)"
proof -
  have "fx (foldl (\<lambda>m v. float3_min v m) m0 vs) = fold min (map fx vs) (fx m0)
      \<and> fy (foldl (\<lambda>m v. float3_min v m) m0 vs) = fold min (map fy vs) (fy m0)
      \<and> fz (foldl (\<lambda>m v. float3_min v m) m0 vs) = fold min (map fz vs) (fz m0)"
    by (induction vs arbitrary: m0) (simp_all add: float3_min_def std_min_linorder min.commute)
  then show ?thesis
    unfolding float3_Min_def Min_image_Cons by (cases "foldl (\<lambda>m v. float3_min v m) m0 vs") simp
qed

lemma foldl_float3_max:
  "foldl (\<lambda>m v. float3_max v m) m0 vs = float3_Max (m0 # vs)"
proof -
  have "fx (foldl (\<lambda>m v. float3_max v m) m0 vs) = fold max (map fx vs) (fx m0)
      \<and> fy (foldl (\<lambda>m v. float3_max v m) m0 vs) = fold max (map fy vs) (fy m0)
      \<and> fz (foldl (\<lambda>m v. float3_max v m) m0 vs) = fold max (map fz vs) (fz m0)"
    by (induction vs arbitrary: m0) (simp_all add: float3_max_def std_max_linorder max.commute)
  then show ?thesis
    unfolding float3_Max_def Max_image_Cons by (cases "foldl (\<lambda>m v. float3_max v m) m0 vs") simp
qed

lemma Bounds_corners:
  assumes h': "\<forall>b. deref h' b = map_option (SetGoffset gs b) (deref h b)"
    and d: "distinct (map fst gs)"
  shows "BoundsMin h m0 gs = foldl (\<lambda>m v. float3_min v m) m0 (MinCorners h' (map fst gs))"
    and "BoundsMax h m0 gs = foldl (\<lambda>m v. float3_max v m) m0 (MaxCorners h' (map fst gs))"
proof -
  have g: "deref h' a = map_option (\<lambda>p. p\<lparr>goffset := g\<rparr>) (deref h a)" if "(a, g) \<in> set gs" for a g
    using that d h' by (cases "deref h a") (simp_all add: SetGoffset_def)
  have "BoundsMin h m0 gs' = foldl (\<lambda>m v. float3_min v m) m0 (MinCorners h' (map fst gs'))"
    if "set gs' \<subseteq> set gs" for gs'
    using that
  proof (induction gs' arbitrary: m0)
    case Nil
    then show ?case by (simp add: BoundsMin_def MinCorners_def)
  next
    case (Cons e gs')
    obtain a g where e: "e = (a, g)" by (cases e)
    with Cons.prems have "(a, g) \<in> set gs" by simp
    from g [OF this] Cons.IH [of "case deref h a of None \<Rightarrow> m0
         | Some p \<Rightarrow> float3_min (vadd g (SAssPiece.mins p)) m0"] Cons.prems
    show ?case
      by (cases "deref h a") (simp_all add: BoundsMin_def MinCorners_def e)
  qed
  then show "BoundsMin h m0 gs = foldl (\<lambda>m v. float3_min v m) m0 (MinCorners h' (map fst gs))"
    by simp
  have "BoundsMax h m0 gs' = foldl (\<lambda>m v. float3_max v m) m0 (MaxCorners h' (map fst gs'))"
    if "set gs' \<subseteq> set gs" for gs'
    using that
  proof (induction gs' arbitrary: m0)
    case Nil
    then show ?case by (simp add: BoundsMax_def MaxCorners_def)
  next
    case (Cons e gs')
    obtain a g where e: "e = (a, g)" by (cases e)
    with Cons.prems have "(a, g) \<in> set gs" by simp
    from g [OF this] Cons.IH [of "case deref h a of None \<Rightarrow> m0
         | Some p \<Rightarrow> float3_max (vadd g (SAssPiece.maxs p)) m0"] Cons.prems
    show ?case
      by (cases "deref h a") (simp_all add: BoundsMax_def MaxCorners_def e)
  qed
  then show "BoundsMax h m0 gs = foldl (\<lambda>m v. float3_max v m) m0 (MaxCorners h' (map fst gs))"
    by simp
qed

lemma ChainOffset_variant:
  assumes "goffset_variant h h'"
  shows "ChainOffset E h' pg ch = ChainOffset E h pg ch"
proof -
  have v: "\<exists>g. deref h' a = map_option (\<lambda>p. p\<lparr>goffset := g\<rparr>) (deref h a)" for a
    using assms unfolding goffset_variant_def by blast
  have "(case deref h' a of None \<Rightarrow> g | Some p \<Rightarrow> vadd (TransformedOffset E p) g)
      = (case deref h a of None \<Rightarrow> g | Some p \<Rightarrow> vadd (TransformedOffset E p) g)" for a g
    using v [of a] by (cases "deref h a") auto
  then show ?thesis by (simp add: ChainOffset_def)
qed

text \<open>
  A tree of distinct live pieces is no deeper than the store is long, so the fuel that
  \<open>Load\<close> gives the pass, one more than the length of the store, is enough for any
  hierarchy under the root.
\<close>

lemma pt_depth_le_nodes: "pt_depth t \<le> length (pt_nodes t)"
proof (induction t)
  case (PTree a ts)
  have "foldr max (map pt_depth ts) 0 \<le> length (concat (map pt_nodes ts))"
    using PTree
  proof (induction ts)
    case Nil
    then show ?case by simp
  next
    case (Cons t ts)
    have 1: "pt_depth t \<le> length (pt_nodes t)"
      using Cons.prems by simp
    have 2: "foldr max (map pt_depth ts) 0 \<le> length (concat (map pt_nodes ts))"
      using Cons.IH Cons.prems by simp
    from 1 2 show ?case by simp
  qed
  then show ?case by simp
qed

lemma hierarchy_nodes_live: "hierarchy h par t \<Longrightarrow> a \<in> set (pt_nodes t) \<Longrightarrow> a < length h"
proof (induction t arbitrary: par)
  case (PTree b ts)
  from PTree.prems(1) obtain p where p: "deref h b = Some p"
    and sub: "\<forall>t \<in> set ts. hierarchy h (Some b) t"
    by (simp split: option.splits)
  from p have b: "b < length h"
    by (simp add: deref_def split: if_splits)
  from PTree.prems(2) consider "a = b" | t where "t \<in> set ts" "a \<in> set (pt_nodes t)"
    by auto
  then show ?case
  proof cases
    case 1
    with b show ?thesis by simp
  next
    case 2
    with sub PTree.IH show ?thesis by blast
  qed
qed

lemma hierarchy_depth_le_heap:
  assumes "hierarchy h par t" and "distinct (pt_nodes t)"
  shows "pt_depth t \<le> length h"
proof -
  have "set (pt_nodes t) \<subseteq> {..<length h}"
    using hierarchy_nodes_live [OF assms(1)] by auto
  then have "card (set (pt_nodes t)) \<le> card {..<length h}"
    by (intro card_mono) auto
  then have "length (pt_nodes t) \<le> length h"
    using assms(2) by (simp add: distinct_card)
  with pt_depth_le_nodes [of t] show ?thesis by simp
qed

lemma chainScene_linked:
  "hierarchy (heap chainLinked) None chainTree"
  "distinct (pt_nodes chainTree)"
  "pt_depth chainTree \<le> 3"
  by code_simp+

text \<open>
  C6. The bounds pass from a piece without parent, over the tree \<open>t\<close> of its descendants
  by child sequences, with fuel for the depth of the tree: it returns; every piece of the
  tree is unchanged but for its global offset; the global offset of the root of the tree
  is its own transformed local offset plus zero, and that of any other piece is its own
  transformed local offset plus the global offset of its parent, which is a piece of the
  tree; and for every chain of the tree from the root down to a piece, the global offset
  of that piece is the sum, from zero and root first, of the transformed local offsets of
  the pieces of the chain. The transformed local offset of a piece is its local offset
  under the matrix composed from its own rotation and scales with a zero translation.
\<close>

theorem CalculateModelDimensions_goffset:
  fixes E :: "('f::{ord,zero,plus}, 't, 'q, 'm) collab" and st :: "('f, 'm) state"
  assumes "hierarchy (heap st) None t" and "distinct (pt_nodes t)" and "pt_depth t \<le> fuel"
  shows "\<exists>st'. CalculateModelDimensions E fuel st (pt_addr t) = Some (Inr st')
     \<and> (\<forall>a \<in> set (pt_nodes t). \<exists>p p'. deref (heap st) a = Some p \<and> deref (heap st') a = Some p'
           \<and> p' = p\<lparr>goffset := goffset p'\<rparr>
           \<and> (case parent p' of
                 None \<Rightarrow> a = pt_addr t \<and> goffset p' = vadd (TransformedOffset E p') ZeroVector
               | Some pa \<Rightarrow> a \<noteq> pt_addr t \<and> pa \<in> set (pt_nodes t)
                   \<and> (\<exists>pp'. deref (heap st') pa = Some pp'
                          \<and> goffset p' = vadd (TransformedOffset E p') (goffset pp'))))
     \<and> (\<forall>ch \<in> set (pt_chains t).
           map_option goffset (deref (heap st') (last ch))
             = Some (ChainOffset E (heap st') ZeroVector ch))"
proof -
  let ?gs = "Goffsets E (heap st) ZeroVector t"
  from CMD_visit [OF assms, of ZeroVector E] obtain st' where
    1: "CalculateModelDimensions E fuel st (pt_addr t) = Some (Inr st')"
    and v: "VisitedBy ?gs st st'"
    by auto
  have h': "\<forall>b. deref (heap st') b = map_option (SetGoffset ?gs b) (deref (heap st) b)"
    using v by (simp add: VisitedBy_def)
  have var: "goffset_variant (heap st) (heap st')"
    by (rule goffset_variant_SetGoffset [OF h'])
  have final: "deref (heap st') c = Some (pc\<lparr>goffset := gc\<rparr>)"
    if "deref (heap st) c = Some pc" "map_of ?gs c = Some gc" for c pc gc
    using that h' by (simp add: SetGoffset_def)
  have node: "\<exists>p p'. deref (heap st) a = Some p \<and> deref (heap st') a = Some p'
           \<and> p' = p\<lparr>goffset := goffset p'\<rparr>
           \<and> (case parent p' of
                 None \<Rightarrow> a = pt_addr t \<and> goffset p' = vadd (TransformedOffset E p') ZeroVector
               | Some pa \<Rightarrow> a \<noteq> pt_addr t \<and> pa \<in> set (pt_nodes t)
                   \<and> (\<exists>pp'. deref (heap st') pa = Some pp'
                          \<and> goffset p' = vadd (TransformedOffset E p') (goffset pp')))"
    if a: "a \<in> set (pt_nodes t)" for a
  proof -
    from Goffsets_parent [OF assms(1,2) a, of E ZeroVector] obtain p where
      p: "deref (heap st) a = Some p"
      and c: "if a = pt_addr t
        then parent p = None
          \<and> map_of ?gs a = Some (vadd (TransformedOffset E p) ZeroVector)
        else \<exists>pa gpa. parent p = Some pa \<and> pa \<in> set (pt_nodes t)
          \<and> map_of ?gs pa = Some gpa
          \<and> map_of ?gs a = Some (vadd (TransformedOffset E p) gpa)"
      by blast
    show ?thesis
    proof (cases "a = pt_addr t")
      case True
      with c have "parent p = None"
        and g: "map_of ?gs a = Some (vadd (TransformedOffset E p) ZeroVector)"
        by simp_all
      with final [OF p g] p True show ?thesis by simp
    next
      case False
      with c obtain pa gpa where pa: "parent p = Some pa" "pa \<in> set (pt_nodes t)"
        "map_of ?gs pa = Some gpa" and g: "map_of ?gs a = Some (vadd (TransformedOffset E p) gpa)"
        by auto
      from Goffsets_parent [OF assms(1,2) pa(2), of E ZeroVector] obtain pp where
        pp: "deref (heap st) pa = Some pp"
        by blast
      from final [OF p g] final [OF pp pa(3)] p pa False show ?thesis by simp
    qed
  qed
  have chain: "map_option goffset (deref (heap st') (last ch))
             = Some (ChainOffset E (heap st') ZeroVector ch)"
    if ch: "ch \<in> set (pt_chains t)" for ch
  proof -
    from Goffsets_chain [OF assms(1,2) ch, of E ZeroVector]
    have ne: "ch \<noteq> []" and ss: "set ch \<subseteq> set (pt_nodes t)"
      and m: "map_of ?gs (last ch) = Some (ChainOffset E (heap st) ZeroVector ch)"
      by blast+
    from ne ss have "last ch \<in> set (pt_nodes t)" by auto
    from Goffsets_parent [OF assms(1,2) this, of E ZeroVector] obtain p where
      "deref (heap st) (last ch) = Some p"
      by blast
    from final [OF this m] show ?thesis
      by (simp add: ChainOffset_variant [OF var])
  qed
  from 1 node chain show ?thesis by blast
qed

theorem CalculateModelDimensions_goffset_witness:
  "hierarchy (heap chainLinked) None chainTree \<and> distinct (pt_nodes chainTree)
   \<and> pt_depth chainTree \<le> 3
   \<and> (\<exists>st'. CalculateModelDimensions testCollab 3 chainLinked 0 = Some (Inr st')
         \<and> map_option goffset (deref (heap st') 0) = Some (vec 0 0 0)
         \<and> map_option goffset (deref (heap st') 1) = Some (vec 0 2 0)
         \<and> map_option goffset (deref (heap st') 2) = Some (vec 2 2 0)
         \<and> map_option goffset (deref (heap st') 4) = Some (vec 0 0 3)
         \<and> map_option goffset (deref (heap st') 2)
              = Some (ChainOffset testCollab (heap st') ZeroVector [0, 1, 2]))"
proof -
  have a: "pt_addr chainTree = 0"
    by code_simp
  have c: "[0, 1, 2] \<in> set (pt_chains chainTree)"
    by code_simp
  from CalculateModelDimensions_goffset [OF chainScene_linked, of testCollab]
  obtain st' where 1: "CalculateModelDimensions testCollab 3 chainLinked 0 = Some (Inr st')"
    and 2: "\<forall>ch \<in> set (pt_chains chainTree).
           map_option goffset (deref (heap st') (last ch))
             = Some (ChainOffset testCollab (heap st') ZeroVector ch)"
    unfolding a by blast
  have v: "case CalculateModelDimensions testCollab 3 chainLinked 0 of
        Some (Inr s) \<Rightarrow> map_option goffset (deref (heap s) 0) = Some (vec 0 0 0)
          \<and> map_option goffset (deref (heap s) 1) = Some (vec 0 2 0)
          \<and> map_option goffset (deref (heap s) 2) = Some (vec 2 2 0)
          \<and> map_option goffset (deref (heap s) 4) = Some (vec 0 0 3)
      | _ \<Rightarrow> False"
    by code_simp
  from 2 c have "map_option goffset (deref (heap st') (last [0, 1, 2]))
      = Some (ChainOffset testCollab (heap st') ZeroVector [0, 1, 2])"
    by blast
  then have "map_option goffset (deref (heap st') 2)
      = Some (ChainOffset testCollab (heap st') ZeroVector [0, 1, 2])"
    by simp
  with 1 v chainScene_linked show ?thesis
    by simp
qed

text \<open>
  C5, amended. The bounds pass from a piece without parent, over the tree \<open>t\<close> of its
  descendants by child sequences: it returns, and the mins and maxs of the model are the
  component-wise minimum and maximum over the mins and maxs the model had before the pass
  and over \<open>goffset + mins\<close> and \<open>goffset + maxs\<close> of every piece of the tree, with the global
  offsets the pass has set.
\<close>

theorem CalculateModelDimensions_bounds:
  fixes E :: "('f::{linorder,zero,plus}, 't, 'q, 'm) collab" and st :: "('f, 'm) state"
  assumes "hierarchy (heap st) None t" and "distinct (pt_nodes t)" and "pt_depth t \<le> fuel"
  shows "\<exists>st'. CalculateModelDimensions E fuel st (pt_addr t) = Some (Inr st')
     \<and> S3DModel.mins (model st')
         = float3_Min (S3DModel.mins (model st) # MinCorners (heap st') (pt_nodes t))
     \<and> S3DModel.maxs (model st')
         = float3_Max (S3DModel.maxs (model st) # MaxCorners (heap st') (pt_nodes t))"
proof -
  let ?gs = "Goffsets E (heap st) ZeroVector t"
  from CMD_visit [OF assms, of ZeroVector E] obtain st' where
    1: "CalculateModelDimensions E fuel st (pt_addr t) = Some (Inr st')"
    and v: "VisitedBy ?gs st st'"
    by auto
  have keys: "map fst ?gs = pt_nodes t"
    by (rule Goffsets_keys [OF assms(1)])
  have h': "\<forall>b. deref (heap st') b = map_option (SetGoffset ?gs b) (deref (heap st) b)"
    using v by (simp add: VisitedBy_def)
  have d: "distinct (map fst ?gs)"
    using assms(2) by (simp add: keys)
  note b = Bounds_corners [OF h' d, unfolded keys]
  have "S3DModel.mins (model st')
         = float3_Min (S3DModel.mins (model st) # MinCorners (heap st') (pt_nodes t))"
    using v by (simp add: VisitedBy_def b(1) foldl_float3_min)
  moreover have "S3DModel.maxs (model st')
         = float3_Max (S3DModel.maxs (model st) # MaxCorners (heap st') (pt_nodes t))"
    using v by (simp add: VisitedBy_def b(2) foldl_float3_max)
  ultimately show ?thesis using 1 by blast
qed

theorem CalculateModelDimensions_bounds_witness:
  "hierarchy (heap chainLinked) None chainTree \<and> distinct (pt_nodes chainTree)
   \<and> pt_depth chainTree \<le> 3
   \<and> (\<exists>st'. CalculateModelDimensions testCollab 3 chainLinked 0 = Some (Inr st')
         \<and> S3DModel.mins (model st') = vec (- 1) (- 1) (- 1)
         \<and> S3DModel.maxs (model st') = vec 3 3 1
         \<and> S3DModel.mins (model st')
              = float3_Min (S3DModel.mins (model chainLinked)
                  # MinCorners (heap st') (pt_nodes chainTree)))"
proof -
  have a: "pt_addr chainTree = 0"
    by code_simp
  from CalculateModelDimensions_bounds [OF chainScene_linked, of testCollab]
  obtain st' where 1: "CalculateModelDimensions testCollab 3 chainLinked 0 = Some (Inr st')"
    and 2: "S3DModel.mins (model st')
         = float3_Min (S3DModel.mins (model chainLinked)
             # MinCorners (heap st') (pt_nodes chainTree))"
    unfolding a by blast
  have v: "case CalculateModelDimensions testCollab 3 chainLinked 0 of
        Some (Inr s) \<Rightarrow> S3DModel.mins (model s) = vec (- 1) (- 1) (- 1)
          \<and> S3DModel.maxs (model s) = vec 3 3 1
      | _ \<Rightarrow> False"
    by code_simp
  from 1 2 v chainScene_linked show ?thesis
    by simp
qed

text \<open>
  C5 as stated fails for a piece that no chain of children links to the root: in
  \<open>detachedScene\<close> under \<open>missingMeta\<close> the piece \<open>B\<close> is live, in the map and detached, its
  corners are \<open>(-5, -5, -5)\<close> and \<open>(5, 5, 5)\<close>, and the loaded model has the bounds of the
  root piece alone, \<open>(-1, -1, -1)\<close> and \<open>(1, 1, 1)\<close>: not the minimum and maximum over the
  pieces of the map.
\<close>

theorem detached_bounds_counterexample:
  "case Load testCollab missingMeta (Some detachedScene) of
     Some (Inr st) \<Rightarrow>
       map_of (pieceMap (model st)) ''B'' = Some 1
       \<and> map_option name (deref (heap st) 1) = Some ''B''
       \<and> map_option parent (deref (heap st) 1) = Some None
       \<and> MinCorners (heap st) [1] = [vec (- 5) (- 5) (- 5)]
       \<and> MaxCorners (heap st) [1] = [vec 5 5 5]
       \<and> S3DModel.mins (model st) = vec (- 1) (- 1) (- 1)
       \<and> S3DModel.maxs (model st) = vec 1 1 1
       \<and> S3DModel.mins (model st)
            \<noteq> float3_Min (MinCorners (heap st) (map snd (pieceMap (model st))))
       \<and> S3DModel.maxs (model st)
            \<noteq> float3_Max (MaxCorners (heap st) (map snd (pieceMap (model st))))
   | _ \<Rightarrow> False"
  by code_simp

end
